theory Spec2Isabelle
  imports Main "HOL-Library.AList" "HOL-Library.Word" "HOL-Library.Code_Target_Nat"
begin

section \<open>Reactive core (reactivity.js)\<close>

subsection \<open>JavaScript values and the two equalities\<close>

text \<open>
  The fragment of JavaScript values that a signal can hold. Numbers are the integers
  together with the two values on which \<open>===\<close> and \<open>Object.is\<close> disagree:
  \<open>NaN\<close> and the negative zero (\<open>Fin 0\<close> is the positive zero). Objects and
  functions are represented by their identity.
\<close>

datatype jsnum = NaN | NegZero | Fin int

datatype val = VUndefined | VNull | VBool bool | VNum jsnum | VStr string | VObj nat

text \<open>
  \<open>Object.is\<close> (SameValue): every value, \<open>NaN\<close> included, is the same as itself,
  and the two zeros differ. On the representation above this is equality.
\<close>

definition object_is :: "val \<Rightarrow> val \<Rightarrow> bool" where
  "object_is a b = (a = b)"

definition is_zero :: "jsnum \<Rightarrow> bool" where
  "is_zero x = (x = NegZero \<or> x = Fin 0)"

text \<open>
  The strict equality \<open>===\<close> of the language: \<open>NaN\<close> is not equal to anything, itself
  included, and the two zeros are equal.
\<close>

fun strict_eq :: "val \<Rightarrow> val \<Rightarrow> bool" where
  "strict_eq (VNum x) (VNum y) = (x \<noteq> NaN \<and> y \<noteq> NaN \<and> (x = y \<or> (is_zero x \<and> is_zero y)))"
| "strict_eq a b = (a = b)"

subsection \<open>State of the module and of the closures it creates\<close>

type_synonym sid = nat
type_synonym eid = nat

text \<open>
  The callbacks handed to \<open>effect\<close> and \<open>batch\<close> are client code. They are given as
  programs over the module's interface: calling a getter or a setter, \<open>batch\<close>,
  \<open>effect\<close>, \<open>createState\<close>, raising an exception, and branching on the value a
  getter returns.
\<close>

datatype cmd =
    Get sid
  | Set sid val
  | Batch "cmd list"
  | Effect "cmd list"
  | Throw val
  | IfIs sid val "cmd list" "cmd list"
  | Create val

text \<open>The closure of one \<open>createState\<close> call: \<open>state\<close> and \<open>listeners\<close> (a \<open>Set\<close>,
  kept in insertion order without duplicates).\<close>

record signal =
  state :: val
  listeners :: "eid list"

text \<open>What an observer sees: an \<open>execute\<close> closure starting to run, a signal being assigned.\<close>

datatype event = Ran eid | Wrote sid val

text \<open>
  The three module variables, the closures created so far (signals by \<open>sid\<close>, the
  \<open>execute\<close> closures of effects by \<open>eid\<close>, each with the \<open>fn\<close> it captured), and the
  log of observable events.
\<close>

record rstate =
  currentEffect :: "eid option"
  batchQueue :: "eid list"
  isBatching :: bool
  cells :: "sid \<Rightarrow> signal"
  nextCell :: sid
  effects :: "eid \<Rightarrow> cmd list"
  nextEffect :: eid
  trace :: "event list"

datatype outcome = Normal | Raised val

type_synonym res = "outcome \<times> rstate"

subsection \<open>Sets as the source uses them\<close>

text \<open>\<open>Set.prototype.add\<close>: a new element goes to the end, a present one changes nothing.\<close>

definition set_add :: "'a list \<Rightarrow> 'a \<Rightarrow> 'a list" where
  "set_add xs x = (if x \<in> set xs then xs else xs @ [x])"

text \<open>\<open>[...new Set(array)]\<close>: the elements of the array in the order of their first occurrence.\<close>

definition new_Set :: "'a list \<Rightarrow> 'a list" where
  "new_Set xs = foldl set_add [] xs"

subsection \<open>createState: get and set\<close>

definition createState :: "val \<Rightarrow> rstate \<Rightarrow> sid \<times> rstate" where
  "createState initial s =
     (nextCell s,
      s\<lparr>cells := (cells s)(nextCell s := \<lparr>state = initial, listeners = []\<rparr>),
        nextCell := Suc (nextCell s)\<rparr>)"

text \<open>\<open>get\<close>: \<open>if (currentEffect) listeners.add(currentEffect); return state;\<close>
  The function gives the state after the call; the value returned is \<open>state (cells s x)\<close>.\<close>

definition get :: "sid \<Rightarrow> rstate \<Rightarrow> rstate" where
  "get x s =
     (case currentEffect s of
        None \<Rightarrow> s
      | Some e \<Rightarrow> s\<lparr>cells := (cells s)(x := (cells s x)\<lparr>listeners := set_add (listeners (cells s x)) e\<rparr>)\<rparr>)"

text \<open>\<open>state = next\<close> in \<open>set\<close>.\<close>

definition assign :: "sid \<Rightarrow> val \<Rightarrow> rstate \<Rightarrow> rstate" where
  "assign x next s =
     s\<lparr>cells := (cells s)(x := (cells s x)\<lparr>state := next\<rparr>), trace := trace s @ [Wrote x next]\<rparr>"

text \<open>\<open>listeners.forEach(fn => batchQueue.push(fn))\<close> in \<open>set\<close>.\<close>

definition enqueue :: "sid \<Rightarrow> rstate \<Rightarrow> rstate" where
  "enqueue x s = s\<lparr>batchQueue := batchQueue s @ listeners (cells s x)\<rparr>"

subsection \<open>Running the module\<close>

text \<open>The two functions the source passes to \<open>batch\<close>: a callback of the client, and
  \<open>() => listeners.forEach(fn => fn())\<close> of a signal.\<close>

datatype thunk = Fn "cmd list" | NotifyListeners sid

datatype task =
    Body "cmd list"
  | Stmt cmd
  | BatchCall thunk
  | Call thunk
  | ForEachListener sid nat
  | ForEachUnique "eid list"
  | Execute eid

fun rank :: "task \<Rightarrow> nat" where
  "rank (ForEachListener x i) = 0"
| "rank (ForEachUnique es) = 0"
| "rank (Execute e) = 0"
| "rank t = 1"

fun thunk_weight :: "thunk \<Rightarrow> nat" where
  "thunk_weight (Fn cs) = 4 * size_list size cs"
| "thunk_weight (NotifyListeners x) = 0"

fun weight :: "task \<Rightarrow> nat" where
  "weight (Body cs) = 4 * size_list size cs"
| "weight (Stmt c) = 4 * size c + 3"
| "weight (BatchCall th) = thunk_weight th + 2"
| "weight (Call th) = thunk_weight th + 1"
| "weight (ForEachListener x i) = 0"
| "weight (ForEachUnique es) = Suc (length es)"
| "weight (Execute e) = 0"

text \<open>
  \<open>exec n t s\<close> runs \<open>t\<close> from \<open>s\<close>. Effects may write the signals they read, so a run
  need not end: \<open>n\<close> bounds the nesting of \<open>execute\<close> calls and the length of a walk
  over a live listener set, and \<open>None\<close> says the bound was reached. An exception
  is the outcome \<open>Raised\<close> with the state at the point it was raised.

  \<^item> \<open>Body\<close>, \<open>Stmt\<close>: the statements of a callback, in order.
  \<^item> \<open>Stmt (Set x next)\<close> is \<open>set\<close>, \<open>Stmt (Batch cs)\<close> and \<open>BatchCall\<close> are \<open>batch\<close>,
    \<open>Stmt (Effect cs)\<close> is \<open>effect\<close>, \<open>Execute\<close> is the closure \<open>execute\<close>.
  \<^item> \<open>ForEachListener x i\<close> is \<open>listeners.forEach(fn => fn())\<close> from position \<open>i\<close>:
    \<open>forEach\<close> of a \<open>Set\<close> also visits the elements added while it runs.
  \<^item> \<open>ForEachUnique es\<close> is \<open>uniqueEffects.forEach(effect => effect())\<close>, over an array.
\<close>

function exec :: "nat \<Rightarrow> task \<Rightarrow> rstate \<Rightarrow> res option" where
  "exec n (Body []) s = Some (Normal, s)"
| "exec n (Body (c # cs)) s =
     (case exec n (Stmt c) s of
        None \<Rightarrow> None
      | Some (Normal, s') \<Rightarrow> exec n (Body cs) s'
      | Some (Raised v, s') \<Rightarrow> Some (Raised v, s'))"
| "exec n (Stmt (Get x)) s = Some (Normal, get x s)"
| "exec n (Stmt (Set x next)) s =
     (if object_is (state (cells s x)) next then Some (Normal, s)
      else if isBatching s then Some (Normal, enqueue x (assign x next s))
      else exec n (BatchCall (NotifyListeners x)) (assign x next s))"
| "exec n (Stmt (Batch cs)) s = exec n (BatchCall (Fn cs)) s"
| "exec n (Stmt (Effect cs)) s =
     exec n (Execute (nextEffect s))
       (s\<lparr>effects := (effects s)(nextEffect s := cs), nextEffect := Suc (nextEffect s)\<rparr>)"
| "exec n (Stmt (Throw v)) s = Some (Raised v, s)"
| "exec n (Stmt (IfIs x v cs1 cs2)) s =
     (if object_is (state (cells s x)) v then exec n (Body cs1) (get x s)
      else exec n (Body cs2) (get x s))"
| "exec n (Stmt (Create v)) s = Some (Normal, snd (createState v s))"
| "exec n (Call (Fn cs)) s = exec n (Body cs) s"
| "exec n (Call (NotifyListeners x)) s = exec n (ForEachListener x 0) s"
| "exec n (BatchCall th) s =
     (if isBatching s then exec n (Call th) s
      else
        (case exec n (Call th) (s\<lparr>isBatching := True, batchQueue := []\<rparr>) of
           None \<Rightarrow> None
         | Some (r, s2) \<Rightarrow>
             (case exec n (ForEachUnique (new_Set (batchQueue s2)))
                     (s2\<lparr>isBatching := False, batchQueue := batchQueue s\<rparr>) of
                None \<Rightarrow> None
              | Some (Normal, s3) \<Rightarrow> Some (r, s3)
              | Some (Raised v, s3) \<Rightarrow> Some (Raised v, s3))))"
| "exec n (ForEachUnique []) s = Some (Normal, s)"
| "exec n (ForEachUnique (e # es)) s =
     (case exec n (Execute e) s of
        None \<Rightarrow> None
      | Some (Normal, s') \<Rightarrow> exec n (ForEachUnique es) s'
      | Some (Raised v, s') \<Rightarrow> Some (Raised v, s'))"
| "exec 0 (ForEachListener x i) s = None"
| "exec (Suc n) (ForEachListener x i) s =
     (if i < length (listeners (cells s x)) then
        (case exec n (Execute (listeners (cells s x) ! i)) s of
           None \<Rightarrow> None
         | Some (Normal, s') \<Rightarrow> exec n (ForEachListener x (Suc i)) s'
         | Some (Raised v, s') \<Rightarrow> Some (Raised v, s'))
      else Some (Normal, s))"
| "exec 0 (Execute e) s = None"
| "exec (Suc n) (Execute e) s =
     (case exec n (Body (effects s e)) (s\<lparr>currentEffect := Some e, trace := trace s @ [Ran e]\<rparr>) of
        None \<Rightarrow> None
      | Some (Normal, s') \<Rightarrow> Some (Normal, s'\<lparr>currentEffect := None\<rparr>)
      | Some (Raised v, s') \<Rightarrow> Some (Raised v, s'))"
  by pat_completeness auto
termination
  by (relation "inv_image (less_than <*lex*> less_than <*lex*> less_than)
                  (\<lambda>(n, t, s). (n, rank t, weight t))") auto

text \<open>The entry points under the names of the source.\<close>

definition batch :: "nat \<Rightarrow> cmd list \<Rightarrow> rstate \<Rightarrow> res option" where
  "batch n fn s = exec n (BatchCall (Fn fn)) s"

definition effect :: "nat \<Rightarrow> cmd list \<Rightarrow> rstate \<Rightarrow> res option" where
  "effect n fn s = exec n (Stmt (Effect fn)) s"

definition set_state :: "nat \<Rightarrow> sid \<Rightarrow> val \<Rightarrow> rstate \<Rightarrow> res option" where
  "set_state n x next s = exec n (Stmt (Set x next)) s"

definition execute :: "nat \<Rightarrow> eid \<Rightarrow> rstate \<Rightarrow> res option" where
  "execute n e s = exec n (Execute e) s"

subsection \<open>Callbacks that only read\<close>

text \<open>
  A callback is quiet when it calls getters only, possibly under \<open>batch\<close> or a branch: it
  writes no signal, creates no signal and no effect, and raises nothing.
\<close>

fun quiet :: "cmd \<Rightarrow> bool" where
  "quiet (Get x) = True"
| "quiet (Batch cs) = (\<forall>c \<in> set cs. quiet c)"
| "quiet (IfIs x v cs1 cs2) = ((\<forall>c \<in> set cs1. quiet c) \<and> (\<forall>c \<in> set cs2. quiet c))"
| "quiet c = False"

fun quiet_task :: "task \<Rightarrow> bool" where
  "quiet_task (Body cs) = (\<forall>c \<in> set cs. quiet c)"
| "quiet_task (Stmt c) = quiet c"
| "quiet_task (BatchCall (Fn cs)) = (\<forall>c \<in> set cs. quiet c)"
| "quiet_task (Call (Fn cs)) = (\<forall>c \<in> set cs. quiet c)"
| "quiet_task t = False"

text \<open>What a quiet callback run under the cursor \<open>ce\<close> may do to a signal: subscribe \<open>ce\<close>.\<close>

definition subscribed :: "eid option \<Rightarrow> signal \<Rightarrow> signal \<Rightarrow> bool" where
  "subscribed ce c c' \<longleftrightarrow>
     c' = c \<or> (\<exists>e. ce = Some e \<and> c' = c\<lparr>listeners := set_add (listeners c) e\<rparr>)"

definition reads_only :: "rstate \<Rightarrow> rstate \<Rightarrow> bool" where
  "reads_only s s' \<longleftrightarrow> (\<exists>f. s' = s\<lparr>cells := f\<rparr> \<and> (\<forall>y. subscribed (currentEffect s) (cells s y) (f y)))"

text \<open>What rerunning the quiet effects \<open>es\<close> may do to a signal, and to the state: the
  effects are logged in order, the cursor ends cleared, and only listener sets grow.\<close>

definition resubscribed :: "eid list \<Rightarrow> signal \<Rightarrow> signal \<Rightarrow> bool" where
  "resubscribed es c c' \<longleftrightarrow>
     state c' = state c \<and>
     set (listeners c) \<subseteq> set (listeners c') \<and>
     set (listeners c') \<subseteq> set (listeners c) \<union> set es \<and>
     (set es \<subseteq> set (listeners c) \<longrightarrow> listeners c' = listeners c)"

definition reran :: "eid list \<Rightarrow> rstate \<Rightarrow> rstate \<Rightarrow> bool" where
  "reran es s s' \<longleftrightarrow>
     (\<exists>f. s' = s\<lparr>cells := f,
                  currentEffect := (if es = [] then currentEffect s else None),
                  trace := trace s @ map Ran es\<rparr> \<and>
          (\<forall>y. resubscribed es (cells s y) (f y)))"

text \<open>A signal that exists keeps its listeners from \<open>s\<close> to \<open>s'\<close>.\<close>

definition keeps :: "rstate \<Rightarrow> rstate \<Rightarrow> bool" where
  "keeps s s' \<longleftrightarrow>
     nextCell s \<le> nextCell s' \<and>
     (\<forall>x < nextCell s. set (listeners (cells s x)) \<subseteq> set (listeners (cells s' x)))"

subsection \<open>Describing the writes of a callback\<close>

text \<open>A callback that only writes, and those of its writes that change the value of their
  signal, given the values \<open>\<sigma>\<close> the signals hold when it starts.\<close>

definition writes :: "(sid \<times> val) list \<Rightarrow> cmd list" where
  "writes ws = map (\<lambda>(x, v). Set x v) ws"

fun changing :: "(sid \<times> val) list \<Rightarrow> (sid \<Rightarrow> val) \<Rightarrow> (sid \<times> val) list" where
  "changing [] \<sigma> = []"
| "changing ((x, v) # ws) \<sigma> =
     (if object_is (\<sigma> x) v then changing ws \<sigma> else (x, v) # changing ws (\<sigma>(x := v)))"

subsection \<open>Example states\<close>

text \<open>The module as loaded.\<close>

definition init :: rstate where
  "init = \<lparr>currentEffect = None, batchQueue = [], isBatching = False,
            cells = (\<lambda>x. \<lparr>state = VUndefined, listeners = []\<rparr>), nextCell = 0,
            effects = (\<lambda>e. []), nextEffect = 0, trace = []\<rparr>"

text \<open>Two signals holding 0, both read by the effect 0, whose callback reads both.\<close>

definition demo :: rstate where
  "demo = \<lparr>currentEffect = None, batchQueue = [], isBatching = False,
            cells = (\<lambda>x. \<lparr>state = VNum (Fin 0), listeners = (if x < 2 then [0] else [])\<rparr>), nextCell = 2,
            effects = (\<lambda>e. [Get 0, Get 1]), nextEffect = 1, trace = []\<rparr>"

text \<open>The same, with an effect that reads both signals and sets the first back to 0.\<close>

definition resetting :: rstate where
  "resetting = demo\<lparr>effects := (\<lambda>e. [Get 0, Get 1, Set 0 (VNum (Fin 0))])\<rparr>"


text \<open>An effect that reads signal 0 only while signal 1 holds 0.\<close>

definition conditional :: rstate where
  "conditional = demo\<lparr>effects := (\<lambda>e. [IfIs 1 (VNum (Fin 0)) [Get 0] []])\<rparr>"

section \<open>Properties of the reactive core\<close>

subsection \<open>A rule for what every run preserves\<close>

lemma exec_preserves:
  assumes R_refl: "\<And>s. R s s"
    and R_trans: "\<And>a b c. R a b \<Longrightarrow> R b c \<Longrightarrow> R a c"
    and R_get: "\<And>x s. R s (get x s)"
    and R_assign: "\<And>x v s. R s (assign x v s)"
    and R_enqueue: "\<And>x s. R s (enqueue x s)"
    and R_alloc: "\<And>cs s. R s (s\<lparr>effects := (effects s)(nextEffect s := cs), nextEffect := Suc (nextEffect s)\<rparr>)"
    and R_create: "\<And>v s. R s (snd (createState v s))"
    and R_open: "\<And>s. R s (s\<lparr>isBatching := True, batchQueue := []\<rparr>)"
    and R_close: "\<And>s q. R s (s\<lparr>isBatching := False, batchQueue := q\<rparr>)"
    and R_enter: "\<And>s e. R s (s\<lparr>currentEffect := Some e, trace := trace s @ [Ran e]\<rparr>)"
    and R_leave: "\<And>s. R s (s\<lparr>currentEffect := None\<rparr>)"
  shows "exec n t s = Some (r, s') \<Longrightarrow> R s s'"
proof (induction n t s arbitrary: r s' rule: exec.induct)
  case (1 n s)
  then show ?case by (simp add: R_refl)
next
  case (2 n c cs s)
  show ?case
  proof (cases "exec n (Stmt c) s")
    case None
    with "2.prems" show ?thesis by simp
  next
    case (Some p)
    obtain a s1 where p: "p = (a, s1)" by (cases p)
    have step: "R s s1" using "2.IH"(1) Some p by simp
    show ?thesis
    proof (cases a)
      case Normal
      with "2.prems" Some p have "exec n (Body cs) s1 = Some (r, s')" by simp
      with "2.IH"(2)[OF Some p[symmetric] Normal] have "R s1 s'" by simp
      with step show ?thesis by (rule R_trans)
    next
      case (Raised v)
      with "2.prems" Some p step show ?thesis by simp
    qed
  qed
next
  case (3 n x s)
  then show ?case by (auto simp: R_get)
next
  case (4 n x "next" s)
  show ?case
  proof (cases "object_is (state (cells s x)) next")
    case True
    with "4.prems" show ?thesis by (simp add: R_refl)
  next
    case False
    show ?thesis
    proof (cases "isBatching s")
      case True
      with False "4.prems" have "s' = enqueue x (assign x next s)" by simp
      then show ?thesis using R_trans[OF R_assign R_enqueue] by simp
    next
      case nb: False
      with False "4.prems" have "exec n (BatchCall (NotifyListeners x)) (assign x next s) = Some (r, s')"
        by simp
      from "4.IH"[OF False nb this] R_assign show ?thesis by (rule R_trans[rotated])
    qed
  qed
next
  case (5 n cs s)
  then show ?case by simp
next
  case (6 n cs s)
  from "6.prems" "6.IH" have "R (s\<lparr>effects := (effects s)(nextEffect s := cs), nextEffect := Suc (nextEffect s)\<rparr>) s'"
    by simp
  with R_alloc show ?case by (rule R_trans)
next
  case (7 n v s)
  then show ?case by (simp add: R_refl)
next
  case (8 n x v cs1 cs2 s)
  then have "R (get x s) s'" by (simp split: if_splits)
  with R_get show ?case by (rule R_trans)
next
  case (9 n v s)
  then show ?case by (auto simp: R_create)
next
  case (10 n cs s)
  then show ?case by simp
next
  case (11 n x s)
  then show ?case by simp
next
  case (12 n th s)
  show ?case
  proof (cases "isBatching s")
    case True
    with "12.prems" "12.IH"(1) show ?thesis by simp
  next
    case nb: False
    show ?thesis
    proof (cases "exec n (Call th) (s\<lparr>isBatching := True, batchQueue := []\<rparr>)")
      case None
      with nb "12.prems" show ?thesis by simp
    next
      case (Some p)
      obtain a s2 where p: "p = (a, s2)" by (cases p)
      have r1: "R s s2" using R_trans[OF R_open "12.IH"(2)[OF nb]] Some p by simp
      let ?s3 = "s2\<lparr>isBatching := False, batchQueue := batchQueue s\<rparr>"
      from nb "12.prems" Some p obtain b where
        fl: "exec n (ForEachUnique (new_Set (batchQueue s2))) ?s3 = Some (b, s')"
        by (auto split: option.splits outcome.splits)
      from "12.IH"(3)[OF nb Some p[symmetric] fl] have "R ?s3 s'" .
      with R_trans[OF r1 R_close] show ?thesis by (rule R_trans)
    qed
  qed
next
  case (13 n s)
  then show ?case by (simp add: R_refl)
next
  case (14 n e es s)
  show ?case
  proof (cases "exec n (Execute e) s")
    case None
    with "14.prems" show ?thesis by simp
  next
    case (Some p)
    obtain a s1 where p: "p = (a, s1)" by (cases p)
    have step: "R s s1" using "14.IH"(1) Some p by simp
    show ?thesis
    proof (cases a)
      case Normal
      with "14.prems" Some p have "exec n (ForEachUnique es) s1 = Some (r, s')" by simp
      with "14.IH"(2)[OF Some p[symmetric] Normal] have "R s1 s'" by simp
      with step show ?thesis by (rule R_trans)
    next
      case (Raised v)
      with "14.prems" Some p step show ?thesis by simp
    qed
  qed
next
  case (15 x i s)
  then show ?case by simp
next
  case (16 n x i s)
  show ?case
  proof (cases "i < length (listeners (cells s x))")
    case False
    with "16.prems" show ?thesis by (simp add: R_refl)
  next
    case True
    show ?thesis
    proof (cases "exec n (Execute (listeners (cells s x) ! i)) s")
      case None
      with True "16.prems" show ?thesis by simp
    next
      case (Some p)
      obtain a s1 where p: "p = (a, s1)" by (cases p)
      have step: "R s s1" using "16.IH"(1)[OF True] Some p by simp
      show ?thesis
      proof (cases a)
        case Normal
        with True "16.prems" Some p have "exec n (ForEachListener x (Suc i)) s1 = Some (r, s')"
          by simp
        with "16.IH"(2)[OF True Some p[symmetric] Normal] have "R s1 s'" by simp
        with step show ?thesis by (rule R_trans)
      next
        case (Raised v)
        with True "16.prems" Some p step show ?thesis by simp
      qed
    qed
  qed
next
  case (17 e s)
  then show ?case by simp
next
  case (18 n e s)
  let ?s1 = "s\<lparr>currentEffect := Some e, trace := trace s @ [Ran e]\<rparr>"
  show ?case
  proof (cases "exec n (Body (effects s e)) ?s1")
    case None
    with "18.prems" show ?thesis by simp
  next
    case (Some p)
    obtain a s2 where p: "p = (a, s2)" by (cases p)
    have step: "R s s2" using R_trans[OF R_enter "18.IH"] Some p by simp
    show ?thesis
    proof (cases a)
      case Normal
      with "18.prems" Some p have "s' = s2\<lparr>currentEffect := None\<rparr>" by simp
      with R_trans[OF step R_leave] show ?thesis by simp
    next
      case (Raised v)
      with "18.prems" Some p step show ?thesis by simp
    qed
  qed
qed

lemma exec_keeps: "exec n t s = Some (r, s') \<Longrightarrow> keeps s s'"
proof (rule exec_preserves[where R = keeps])
  show "\<And>a b c. keeps a b \<Longrightarrow> keeps b c \<Longrightarrow> keeps a c"
    unfolding keeps_def by (meson le_trans less_le_trans subset_trans)
qed (auto simp: keeps_def get_def set_add_def assign_def enqueue_def createState_def split: option.splits)

subsection \<open>Sets\<close>

lemma set_add_idem: "set_add (set_add xs x) x = set_add xs x"
  by (simp add: set_add_def)

lemma new_Set_Nil: "new_Set [] = []"
  by (simp add: new_Set_def)

lemma foldl_set_add:
  "distinct acc \<Longrightarrow> foldl set_add acc xs = rev (remdups (rev (acc @ xs)))"
proof (induction xs arbitrary: acc)
  case Nil
  then show ?case by (simp add: distinct_remdups_id)
next
  case (Cons x xs)
  show ?case
  proof (cases "x \<in> set acc")
    case True
    have "remdups (rev xs @ x # rev acc) = remdups (rev xs @ remdups (x # rev acc))"
      by (simp only: remdups_append2)
    also have "\<dots> = remdups (rev xs @ remdups (rev acc))" using True by simp
    also have "\<dots> = remdups (rev xs @ rev acc)" by (simp only: remdups_append2)
    finally show ?thesis using True Cons.IH[OF Cons.prems] by (simp add: set_add_def)
  next
    case False
    with Cons.prems have "distinct (acc @ [x])" by simp
    from Cons.IH[OF this] False show ?thesis by (simp add: set_add_def)
  qed
qed

lemma new_Set_first_occurrences: "new_Set xs = rev (remdups (rev xs))"
  unfolding new_Set_def using foldl_set_add[of "[]" xs] by simp

lemma new_Set_set: "set (new_Set xs) = set xs"
  by (simp add: new_Set_first_occurrences)

lemma new_Set_distinct: "distinct (new_Set xs)"
  by (simp add: new_Set_first_occurrences)

lemma count_list_distinct: "distinct xs \<Longrightarrow> x \<in> set xs \<Longrightarrow> count_list xs x = 1"
  by (induction xs) auto

lemma count_list_map_Ran: "count_list (map Ran es) (Ran e) = count_list es e"
  by (induction es) auto

lemma count_list_map_Wrote: "count_list (map (\<lambda>(x, v). Wrote x v) ws) (Ran e) = 0"
  by (induction ws) auto

subsection \<open>Quiet callbacks only subscribe\<close>

lemma subscribed_refl: "subscribed ce c c"
  by (simp add: subscribed_def)

lemma subscribed_trans: "subscribed ce a b \<Longrightarrow> subscribed ce b c \<Longrightarrow> subscribed ce a c"
  by (auto simp: subscribed_def set_add_idem)

lemma reads_only_refl: "reads_only s s"
  unfolding reads_only_def by (rule exI[of _ "cells s"]) (simp add: subscribed_refl)

lemma reads_only_trans:
  assumes "reads_only a b" "reads_only b c" shows "reads_only a c"
proof -
  from assms(1) obtain f where f: "b = a\<lparr>cells := f\<rparr>" "\<forall>y. subscribed (currentEffect a) (cells a y) (f y)"
    unfolding reads_only_def by blast
  from assms(2) obtain g where g: "c = b\<lparr>cells := g\<rparr>" "\<forall>y. subscribed (currentEffect b) (cells b y) (g y)"
    unfolding reads_only_def by blast
  have "c = a\<lparr>cells := g\<rparr>" using f(1) g(1) by simp
  moreover have "\<forall>y. subscribed (currentEffect a) (cells a y) (g y)"
    using f g(2) by (auto intro: subscribed_trans)
  ultimately show ?thesis unfolding reads_only_def by blast
qed

lemma reads_only_get: "reads_only s (get x s)"
proof (cases "currentEffect s")
  case None
  then show ?thesis by (simp add: get_def reads_only_refl)
next
  case (Some e)
  show ?thesis
    unfolding reads_only_def get_def Some
    by (rule exI[of _ "(cells s)(x := (cells s x)\<lparr>listeners := set_add (listeners (cells s x)) e\<rparr>)"])
       (simp add: subscribed_def)
qed

lemma reads_only_batch:
  assumes "\<not> isBatching s" "reads_only (s\<lparr>isBatching := True, batchQueue := []\<rparr>) s2"
  shows "reads_only s (s2\<lparr>isBatching := False, batchQueue := batchQueue s\<rparr>)" "batchQueue s2 = []"
proof -
  from assms(2) obtain f where f: "s2 = s\<lparr>isBatching := True, batchQueue := [], cells := f\<rparr>"
    "\<forall>y. subscribed (currentEffect s) (cells s y) (f y)"
    unfolding reads_only_def by auto
  from f(1) assms(1) have "s2\<lparr>isBatching := False, batchQueue := batchQueue s\<rparr> = s\<lparr>cells := f\<rparr>"
    by simp
  with f(2) show "reads_only s (s2\<lparr>isBatching := False, batchQueue := batchQueue s\<rparr>)"
    unfolding reads_only_def by auto
  from f(1) show "batchQueue s2 = []" by simp
qed

lemma quiet_run:
  "quiet_task t \<Longrightarrow> \<exists>s'. exec n t s = Some (Normal, s') \<and> reads_only s s'"
proof (induction n t s rule: exec.induct)
  case (1 n s)
  then show ?case by (simp add: reads_only_refl)
next
  case (2 n c cs s)
  from "2.prems" "2.IH"(1) obtain s1 where s1: "exec n (Stmt c) s = Some (Normal, s1)" "reads_only s s1"
    by auto
  from "2.prems" "2.IH"(2)[OF s1(1) refl refl] obtain s2 where
    s2: "exec n (Body cs) s1 = Some (Normal, s2)" "reads_only s1 s2" by auto
  from s1 s2 show ?case by (auto intro: reads_only_trans)
next
  case (3 n x s)
  then show ?case by (simp add: reads_only_get)
next
  case (8 n x v cs1 cs2 s)
  show ?case
  proof (cases "object_is (state (cells s x)) v")
    case True
    with "8.prems" "8.IH"(1) obtain s1 where "exec n (Body cs1) (get x s) = Some (Normal, s1)"
      "reads_only (get x s) s1" by auto
    with True show ?thesis by (auto intro: reads_only_trans[OF reads_only_get])
  next
    case False
    with "8.prems" "8.IH"(2) obtain s1 where "exec n (Body cs2) (get x s) = Some (Normal, s1)"
      "reads_only (get x s) s1" by auto
    with False show ?thesis by (auto intro: reads_only_trans[OF reads_only_get])
  qed
next
  case (12 n th s)
  then obtain cs where th: "th = Fn cs" by (cases th) auto
  show ?case
  proof (cases "isBatching s")
    case True
    with "12.prems" "12.IH"(1) th show ?thesis by simp
  next
    case nb: False
    with "12.prems" "12.IH"(2) th obtain s2 where
      s2: "exec n (Call th) (s\<lparr>isBatching := True, batchQueue := []\<rparr>) = Some (Normal, s2)"
      "reads_only (s\<lparr>isBatching := True, batchQueue := []\<rparr>) s2" by auto
    from reads_only_batch[OF nb s2(2)] nb s2(1) show ?thesis
      by (simp add: new_Set_Nil)
  qed
qed simp_all

subsection \<open>Rerunning quiet effects\<close>

lemma resubscribed_Nil: "resubscribed [] c c"
  by (simp add: resubscribed_def)

lemma resubscribed_append:
  "resubscribed es1 a b \<Longrightarrow> resubscribed es2 b c \<Longrightarrow> resubscribed (es1 @ es2) a c"
  unfolding resubscribed_def by auto

lemma subscribed_resubscribed: "subscribed (Some e) c c' \<Longrightarrow> resubscribed [e] c c'"
  unfolding subscribed_def resubscribed_def by (auto simp: set_add_def split: if_splits)

lemma reran_Nil: "reran [] s s"
  unfolding reran_def by (rule exI[of _ "cells s"]) (simp add: resubscribed_Nil)

lemma reran_append:
  assumes "reran es1 a b" "reran es2 b c" shows "reran (es1 @ es2) a c"
proof -
  from assms(1) obtain f where f: "b = a\<lparr>cells := f,
      currentEffect := (if es1 = [] then currentEffect a else None), trace := trace a @ map Ran es1\<rparr>"
    "\<forall>y. resubscribed es1 (cells a y) (f y)" unfolding reran_def by blast
  from assms(2) obtain g where g: "c = b\<lparr>cells := g,
      currentEffect := (if es2 = [] then currentEffect b else None), trace := trace b @ map Ran es2\<rparr>"
    "\<forall>y. resubscribed es2 (cells b y) (g y)" unfolding reran_def by blast
  have "c = a\<lparr>cells := g, currentEffect := (if es1 @ es2 = [] then currentEffect a else None),
      trace := trace a @ map Ran (es1 @ es2)\<rparr>"
    using f(1) g(1) by simp
  moreover have "\<forall>y. resubscribed (es1 @ es2) (cells a y) (g y)"
    using f g(2) by (auto intro: resubscribed_append)
  ultimately show ?thesis unfolding reran_def by blast
qed

lemma reran_effects: "reran es s s' \<Longrightarrow> effects s' = effects s"
  unfolding reran_def by auto

lemma reran_listeners:
  "reran es s s' \<Longrightarrow> set es \<subseteq> set (listeners (cells s x)) \<Longrightarrow>
     listeners (cells s' x) = listeners (cells s x)"
  unfolding reran_def resubscribed_def by auto

lemma reran_fields:
  assumes "reran es s s'"
  shows "trace s' = trace s @ map Ran es" "isBatching s' = isBatching s"
    "batchQueue s' = batchQueue s" "state (cells s' y) = state (cells s y)"
    "effects s' = effects s" "nextCell s' = nextCell s" "nextEffect s' = nextEffect s"
  using assms unfolding reran_def resubscribed_def by auto

lemma execute_quiet:
  assumes "\<forall>c \<in> set (effects s e). quiet c"
  shows "\<exists>s'. exec (Suc n) (Execute e) s = Some (Normal, s') \<and> reran [e] s s'"
proof -
  let ?s1 = "s\<lparr>currentEffect := Some e, trace := trace s @ [Ran e]\<rparr>"
  from assms have "quiet_task (Body (effects s e))" by simp
  from quiet_run[OF this, of n ?s1] obtain s2 where
    s2: "exec n (Body (effects s e)) ?s1 = Some (Normal, s2)" "reads_only ?s1 s2" by blast
  from s2(2) obtain f where f: "s2 = ?s1\<lparr>cells := f\<rparr>" "\<forall>y. subscribed (Some e) (cells s y) (f y)"
    unfolding reads_only_def by auto
  have "reran [e] s (s2\<lparr>currentEffect := None\<rparr>)"
    unfolding reran_def using f by (intro exI[of _ f]) (simp add: subscribed_resubscribed)
  with s2(1) show ?thesis by simp
qed

lemma flush_quiet:
  "\<forall>e \<in> set es. \<forall>c \<in> set (effects s e). quiet c \<Longrightarrow>
     \<exists>s'. exec (Suc n) (ForEachUnique es) s = Some (Normal, s') \<and> reran es s s'"
proof (induction es arbitrary: s)
  case Nil
  then show ?case by (simp add: reran_Nil)
next
  case (Cons e es)
  from Cons.prems execute_quiet[of s e n] obtain s1 where
    s1: "exec (Suc n) (Execute e) s = Some (Normal, s1)" "reran [e] s s1" by auto
  from Cons.prems reran_effects[OF s1(2)] have "\<forall>e \<in> set es. \<forall>c \<in> set (effects s1 e). quiet c"
    by simp
  from Cons.IH[OF this] obtain s2 where
    s2: "exec (Suc n) (ForEachUnique es) s1 = Some (Normal, s2)" "reran es s1 s2" by blast
  from reran_append[OF s1(2) s2(2)] s1(1) s2(1) show ?case by simp
qed

lemma foreach_quiet:
  "\<forall>e \<in> set (listeners (cells s x)). \<forall>c \<in> set (effects s e). quiet c \<Longrightarrow>
   length (listeners (cells s x)) - i < n \<Longrightarrow>
     \<exists>s'. exec n (ForEachListener x i) s = Some (Normal, s') \<and>
          reran (drop i (listeners (cells s x))) s s'"
proof (induction n arbitrary: i s)
  case 0
  then show ?case by simp
next
  case (Suc n)
  let ?L = "listeners (cells s x)"
  show ?case
  proof (cases "i < length ?L")
    case False
    then show ?thesis by (simp add: reran_Nil)
  next
    case True
    with Suc.prems(2) obtain m where m: "n = Suc m" by (cases n) auto
    from True Suc.prems(1) have "\<forall>c \<in> set (effects s (?L ! i)). quiet c"
      using nth_mem by blast
    from execute_quiet[OF this, of m] m obtain s1 where
      s1: "exec n (Execute (?L ! i)) s = Some (Normal, s1)" "reran [?L ! i] s s1" by auto
    from True have L1: "listeners (cells s1 x) = ?L"
      by (intro reran_listeners[OF s1(2)]) simp
    from Suc.prems(1) reran_effects[OF s1(2)] L1
    have q1: "\<forall>e \<in> set (listeners (cells s1 x)). \<forall>c \<in> set (effects s1 e). quiet c" by simp
    from True Suc.prems(2) L1 have "length (listeners (cells s1 x)) - Suc i < n" by simp
    from Suc.IH[OF q1 this] L1 obtain s2 where
      s2: "exec n (ForEachListener x (Suc i)) s1 = Some (Normal, s2)" "reran (drop (Suc i) ?L) s1 s2"
      by auto
    from reran_append[OF s1(2) s2(2)] True have "reran (drop i ?L) s s2"
      by (simp add: Cons_nth_drop_Suc)
    with True s1(1) s2(1) show ?thesis by simp
  qed
qed

lemma notify_quiet:
  assumes nb: "\<not> isBatching s"
    and q: "\<forall>e \<in> set (listeners (cells s x)). \<forall>c \<in> set (effects s e). quiet c"
    and n: "length (listeners (cells s x)) < n"
  shows "\<exists>s'. exec n (BatchCall (NotifyListeners x)) s = Some (Normal, s') \<and>
           reran (listeners (cells s x)) s s'"
proof -
  let ?o = "s\<lparr>isBatching := True, batchQueue := []\<rparr>"
  from q n foreach_quiet[of ?o x 0 n] obtain s2 where
    s2: "exec n (ForEachListener x 0) ?o = Some (Normal, s2)" "reran (listeners (cells s x)) ?o s2"
    by auto
  from s2(2) obtain f where f: "s2 = ?o\<lparr>cells := f,
      currentEffect := (if listeners (cells s x) = [] then currentEffect s else None),
      trace := trace s @ map Ran (listeners (cells s x))\<rparr>"
    "\<forall>y. resubscribed (listeners (cells s x)) (cells s y) (f y)"
    unfolding reran_def by (auto cong: if_cong)
  have "reran (listeners (cells s x)) s (s2\<lparr>isBatching := False, batchQueue := batchQueue s\<rparr>)"
    unfolding reran_def using f nb by (intro exI[of _ f]) simp
  moreover from f(1) have "batchQueue s2 = []" by simp
  ultimately show ?thesis using nb s2(1) by (simp add: new_Set_Nil)
qed

subsection \<open>Writes inside a batch\<close>

lemma batched_writes:
  "isBatching s \<Longrightarrow>
   \<exists>f. exec n (Body (writes ws)) s =
         Some (Normal, s\<lparr>cells := f,
                trace := trace s @ map (\<lambda>(x, v). Wrote x v) (changing ws (\<lambda>x. state (cells s x))),
                batchQueue := batchQueue s @
                  concat (map (\<lambda>(x, v). listeners (cells s x)) (changing ws (\<lambda>x. state (cells s x))))\<rparr>) \<and>
        (\<forall>y. listeners (f y) = listeners (cells s y))"
proof (induction ws arbitrary: s)
  case Nil
  show ?case by (rule exI[of _ "cells s"]) (simp add: writes_def)
next
  case (Cons w ws)
  obtain x v where w: "w = (x, v)" by (cases w)
  show ?case
  proof (cases "object_is (state (cells s x)) v")
    case True
    from Cons.IH[OF Cons.prems] True w show ?thesis by (simp add: writes_def)
  next
    case False
    let ?s1 = "enqueue x (assign x v s)"
    have b1: "isBatching ?s1" using Cons.prems by (simp add: enqueue_def assign_def)
    have st: "(\<lambda>y. state (cells ?s1 y)) = (\<lambda>y. state (cells s y))(x := v)"
      by (auto simp: enqueue_def assign_def)
    have ls: "\<And>y. listeners (cells ?s1 y) = listeners (cells s y)"
      by (simp add: enqueue_def assign_def)
    from Cons.IH[OF b1] obtain f where f:
      "exec n (Body (writes ws)) ?s1 =
         Some (Normal, ?s1\<lparr>cells := f,
                trace := trace ?s1 @ map (\<lambda>(x, v). Wrote x v) (changing ws (\<lambda>x. state (cells ?s1 x))),
                batchQueue := batchQueue ?s1 @
                  concat (map (\<lambda>(x, v). listeners (cells ?s1 x)) (changing ws (\<lambda>x. state (cells ?s1 x))))\<rparr>)"
      "\<forall>y. listeners (f y) = listeners (cells ?s1 y)" by blast
    show ?thesis
      apply (rule exI[of _ f])
      using f False w Cons.prems unfolding st ls
      by (simp add: writes_def enqueue_def assign_def)
  qed
qed

lemma changing_subset: "set (changing ws \<sigma>) \<subseteq> set ws"
proof (induction ws arbitrary: \<sigma>)
  case Nil
  show ?case by simp
next
  case (Cons w ws)
  obtain x v where w: "w = (x, v)" by (cases w)
  have "set (changing (w # ws) \<sigma>) \<subseteq>
          insert w (set (changing ws \<sigma>) \<union> set (changing ws (\<sigma>(x := v))))"
    unfolding w by auto
  with Cons.IH[of \<sigma>] Cons.IH[of "\<sigma>(x := v)"]
  have "set (changing (w # ws) \<sigma>) \<subseteq> insert w (set ws)" by blast
  then show ?case by simp
qed

lemma batch_writes_quiet:
  assumes fresh: "\<not> isBatching s"
    and quiet: "\<forall>(x, v) \<in> set ws. \<forall>e \<in> set (listeners (cells s x)). \<forall>c \<in> set (effects s e). quiet c"
    and fuel: "0 < n"
  shows "\<exists>s'. batch n (writes ws) s = Some (Normal, s') \<and>
           trace s' = trace s @ map (\<lambda>(x, v). Wrote x v) (changing ws (\<lambda>x. state (cells s x))) @
             map Ran (new_Set (concat (map (\<lambda>(x, v). listeners (cells s x))
                                        (changing ws (\<lambda>x. state (cells s x)))))) \<and>
           \<not> isBatching s' \<and> batchQueue s' = batchQueue s"
proof -
  let ?o = "s\<lparr>isBatching := True, batchQueue := []\<rparr>"
  let ?ch = "changing ws (\<lambda>x. state (cells s x))"
  let ?Q = "concat (map (\<lambda>(x, v). listeners (cells s x)) ?ch)"
  from fuel obtain m where m: "n = Suc m" by (cases n) auto
  from batched_writes[of ?o n ws] obtain f where f:
    "exec n (Body (writes ws)) ?o =
       Some (Normal, ?o\<lparr>cells := f, trace := trace s @ map (\<lambda>(x, v). Wrote x v) ?ch,
                         batchQueue := ?Q\<rparr>)"
    "\<forall>y. listeners (f y) = listeners (cells s y)" by auto
  let ?s2 = "?o\<lparr>cells := f, trace := trace s @ map (\<lambda>(x, v). Wrote x v) ?ch, batchQueue := ?Q\<rparr>"
  let ?s3 = "?s2\<lparr>isBatching := False, batchQueue := batchQueue s\<rparr>"
  have "\<forall>e \<in> set ?Q. \<forall>c \<in> set (effects ?s3 e). quiet c"
    using quiet changing_subset[of ws "\<lambda>x. state (cells s x)"] by fastforce
  then have "\<forall>e \<in> set (new_Set ?Q). \<forall>c \<in> set (effects ?s3 e). quiet c"
    by (simp only: new_Set_set)
  from flush_quiet[OF this, of m] m obtain s' where
    s': "exec n (ForEachUnique (new_Set ?Q)) ?s3 = Some (Normal, s')" "reran (new_Set ?Q) ?s3 s'"
    by auto
  have "batch n (writes ws) s = Some (Normal, s')"
    using fresh f(1) s'(1) by (simp add: batch_def)
  with reran_fields(1-3)[OF s'(2)] show ?thesis by simp
qed

section \<open>Claims about the reactive core\<close>

subsection \<open>C1: one rerun per batch\<close>

text \<open>
  C1 (as amended). \<open>batch(fn)\<close> is called while no batch is open; \<open>fn\<close> performs the
  writes \<open>ws\<close> and nothing else; every effect subscribed to a written signal has a quiet
  callback (it only reads). If the effect \<open>E\<close> is subscribed to a signal whose value
  one of the writes changes, then the call returns normally, the log shows the
  value-changing writes first and the reruns after them, and \<open>E\<close> is rerun exactly once,
  however many of the writes and of the written signals it is subscribed to.
\<close>

theorem batch_single_rerun:
  assumes fresh: "\<not> isBatching s"
    and quiet: "\<forall>(x, v) \<in> set ws. \<forall>e \<in> set (listeners (cells s x)). \<forall>c \<in> set (effects s e). quiet c"
    and sub: "\<exists>(x, v) \<in> set (changing ws (\<lambda>x. state (cells s x))). E \<in> set (listeners (cells s x))"
    and fuel: "0 < n"
  shows "\<exists>s' rs. batch n (writes ws) s = Some (Normal, s') \<and>
           trace s' = trace s @ map (\<lambda>(x, v). Wrote x v) (changing ws (\<lambda>x. state (cells s x))) @ map Ran rs \<and>
           count_list rs E = 1 \<and>
           count_list (drop (length (trace s)) (trace s')) (Ran E) = 1"
proof -
  let ?ch = "changing ws (\<lambda>x. state (cells s x))"
  let ?Q = "concat (map (\<lambda>(x, v). listeners (cells s x)) ?ch)"
  from batch_writes_quiet[OF fresh quiet fuel] obtain s' where
    s': "batch n (writes ws) s = Some (Normal, s')"
    "trace s' = trace s @ map (\<lambda>(x, v). Wrote x v) ?ch @ map Ran (new_Set ?Q)" by blast
  from sub have "E \<in> set ?Q" by auto
  then have c: "count_list (new_Set ?Q) E = 1"
    by (simp add: count_list_distinct new_Set_distinct new_Set_set)
  have "count_list (drop (length (trace s)) (trace s')) (Ran E) = 1"
    using s'(2) c by (simp add: count_list_map_Ran count_list_map_Wrote)
  with s' c show ?thesis by blast
qed

text \<open>Witness for C1: three writes to the two signals of \<open>demo\<close>, both read by effect 0.\<close>

theorem batch_single_rerun_witness:
  "\<exists>s' rs. batch 1 (writes [(0, VNum (Fin 1)), (1, VNum (Fin 2)), (0, VNum (Fin 3))]) demo = Some (Normal, s') \<and>
      trace s' = [Wrote 0 (VNum (Fin 1)), Wrote 1 (VNum (Fin 2)), Wrote 0 (VNum (Fin 3))] @ map Ran rs \<and>
      count_list rs 0 = 1 \<and> count_list (trace s') (Ran 0) = 1"
  using batch_single_rerun[of demo "[(0, VNum (Fin 1)), (1, VNum (Fin 2)), (0, VNum (Fin 3))]" 0 1]
  by (simp add: demo_def object_is_def)

text \<open>
  Counterexample to C1 as stated: in \<open>resetting\<close> effect 0 is subscribed to both signals,
  no batch is open, and the batch performs two value-changing writes. Effect 0 is
  rerun twice: its rerun sets signal 0 back, which is a write outside any batch and
  reruns the subscribers of signal 0, effect 0 among them.
\<close>

theorem batch_single_rerun_counterexample:
  "listeners (cells resetting 0) = [0] \<and> listeners (cells resetting 1) = [0] \<and>
   \<not> isBatching resetting \<and>
   map_option (\<lambda>(r, s'). (r, trace s'))
     (batch 3 [Set 0 (VNum (Fin 1)), Set 1 (VNum (Fin 1))] resetting) =
   Some (Normal, [Wrote 0 (VNum (Fin 1)), Wrote 1 (VNum (Fin 1)), Ran 0, Wrote 0 (VNum (Fin 0)), Ran 0])"
  by (simp add: batch_def resetting_def demo_def object_is_def assign_def enqueue_def get_def
      set_add_def new_Set_def numeral_3_eq_3)

subsection \<open>C3: a write of the same value\<close>

text \<open>
  C3 (as amended). The test of \<open>set\<close> is \<open>Object.is\<close>, not strict equality. If \<open>next\<close>
  is the same value as the stored one, \<open>set\<close> returns at once: the state, the log and
  the queue are unchanged, so nothing is notified and nothing reruns. Otherwise the
  value is stored; inside a batch every listener is appended to the pending queue;
  outside a batch, when the listeners have quiet callbacks, each listener is run once,
  in the order of the listener set, and the batch variables are as before.
\<close>

theorem set_same_value_or_notify:
  "(object_is (state (cells s x)) next \<longrightarrow> set_state n x next s = Some (Normal, s)) \<and>
   (\<not> object_is (state (cells s x)) next \<and> isBatching s \<longrightarrow>
      set_state n x next s =
        Some (Normal, s\<lparr>cells := (cells s)(x := (cells s x)\<lparr>state := next\<rparr>),
                        batchQueue := batchQueue s @ listeners (cells s x),
                        trace := trace s @ [Wrote x next]\<rparr>)) \<and>
   (\<not> object_is (state (cells s x)) next \<and> \<not> isBatching s \<and>
    (\<forall>e \<in> set (listeners (cells s x)). \<forall>c \<in> set (effects s e). quiet c) \<and>
    length (listeners (cells s x)) < n \<longrightarrow>
      (\<exists>s'. set_state n x next s = Some (Normal, s') \<and>
            state (cells s' x) = next \<and>
            trace s' = trace s @ Wrote x next # map Ran (listeners (cells s x)) \<and>
            \<not> isBatching s' \<and> batchQueue s' = batchQueue s))"
proof (intro conjI impI)
  assume "object_is (state (cells s x)) next"
  then show "set_state n x next s = Some (Normal, s)" by (simp add: set_state_def)
next
  assume "\<not> object_is (state (cells s x)) next \<and> isBatching s"
  then show "set_state n x next s =
        Some (Normal, s\<lparr>cells := (cells s)(x := (cells s x)\<lparr>state := next\<rparr>),
                        batchQueue := batchQueue s @ listeners (cells s x),
                        trace := trace s @ [Wrote x next]\<rparr>)"
    by (simp add: set_state_def enqueue_def assign_def)
next
  assume a: "\<not> object_is (state (cells s x)) next \<and> \<not> isBatching s \<and>
    (\<forall>e \<in> set (listeners (cells s x)). \<forall>c \<in> set (effects s e). quiet c) \<and>
    length (listeners (cells s x)) < n"
  let ?s1 = "assign x next s"
  have L: "listeners (cells ?s1 x) = listeners (cells s x)" "effects ?s1 = effects s"
    "\<not> isBatching ?s1" "trace ?s1 = trace s @ [Wrote x next]" "state (cells ?s1 x) = next"
    "batchQueue ?s1 = batchQueue s"
    using a by (simp_all add: assign_def)
  from a L notify_quiet[of ?s1 x n] obtain s' where
    s': "exec n (BatchCall (NotifyListeners x)) ?s1 = Some (Normal, s')"
      "reran (listeners (cells s x)) ?s1 s'" by auto
  from a s'(1) have "set_state n x next s = Some (Normal, s')" by (simp add: set_state_def)
  with reran_fields[OF s'(2)] L
  show "\<exists>s'. set_state n x next s = Some (Normal, s') \<and>
            state (cells s' x) = next \<and>
            trace s' = trace s @ Wrote x next # map Ran (listeners (cells s x)) \<and>
            \<not> isBatching s' \<and> batchQueue s' = batchQueue s"
    by auto
qed

text \<open>Witness for C3: the three cases on the signal 0 of \<open>demo\<close>.\<close>

theorem set_same_value_or_notify_witness:
  "set_state 0 0 (VNum (Fin 0)) demo = Some (Normal, demo) \<and>
   set_state 0 0 (VNum (Fin 1)) (demo\<lparr>isBatching := True\<rparr>) =
     Some (Normal, demo\<lparr>isBatching := True,
                        cells := (cells demo)(0 := (cells demo 0)\<lparr>state := VNum (Fin 1)\<rparr>),
                        batchQueue := [0], trace := [Wrote 0 (VNum (Fin 1))]\<rparr>) \<and>
   (\<exists>s'. set_state 2 0 (VNum (Fin 1)) demo = Some (Normal, s') \<and>
         state (cells s' 0) = VNum (Fin 1) \<and> trace s' = [Wrote 0 (VNum (Fin 1)), Ran 0] \<and>
         \<not> isBatching s' \<and> batchQueue s' = [])"
  using set_same_value_or_notify[of demo 0 "VNum (Fin 0)" 0]
    set_same_value_or_notify[of "demo\<lparr>isBatching := True\<rparr>" 0 "VNum (Fin 1)" 0]
    set_same_value_or_notify[of demo 0 "VNum (Fin 1)" 2]
  by (simp add: demo_def object_is_def)

text \<open>
  Counterexample to C3 as stated. The signal holds \<open>+0\<close> and \<open>-0\<close> is written: the two
  are strictly equal, yet the value is replaced and the subscriber is rerun. The signal
  holds \<open>NaN\<close> and \<open>NaN\<close> is written: the two are not strictly equal, yet the write is a
  no-op.
\<close>

theorem set_strict_equality_counterexample:
  "strict_eq (state (cells demo 0)) (VNum NegZero) \<and>
   map_option (\<lambda>(r, s'). (r, state (cells s' 0), trace s')) (set_state 2 0 (VNum NegZero) demo) =
     Some (Normal, VNum NegZero, [Wrote 0 (VNum NegZero), Ran 0]) \<and>
   \<not> strict_eq (VNum NaN) (VNum NaN) \<and>
   map_option (\<lambda>(r, s'). (r, state (cells s' 0), trace s')) (set_state 2 0 (VNum NaN) (assign 0 (VNum NaN) demo)) =
     Some (Normal, VNum NaN, [Wrote 0 (VNum NaN)])"
  by (simp add: set_state_def demo_def object_is_def is_zero_def assign_def get_def set_add_def
      new_Set_def numeral_2_eq_2)

subsection \<open>C4: a batch whose callback raises\<close>




subsection \<open>C5: the cursor after an effect raises\<close>

text \<open>
  C5 (the code at the failing input). \<open>effect(() => { throw 'boom' })\<close> on the module as
  loaded: the exception reaches the caller and \<open>currentEffect\<close> still points at the
  effect, so a later read of a signal outside any effect subscribes that effect.
\<close>

theorem effect_raise_leaves_cursor:
  "map_option (\<lambda>(r, s'). (r, currentEffect s', listeners (cells (get 0 s') 0)))
     (effect 1 [Throw (VStr ''boom'')] init) =
   Some (Raised (VStr ''boom''), Some 0, [0])"
  by (simp add: effect_def init_def get_def set_add_def)

subsection \<open>C9: subscriptions never shrink\<close>

text \<open>
  C9 (as amended). Whatever the module runs (a callback, a getter or setter, \<open>batch\<close>,
  \<open>effect\<close>, \<open>createState\<close>, the rerun of effects), an effect \<open>e\<close> in the listener set of
  an existing signal \<open>x\<close> before the run is in it after the run. A later value-changing
  write to \<open>x\<close> then notifies \<open>e\<close>: inside a batch the write puts \<open>e\<close> in the pending
  queue; outside a batch, when the listeners of \<open>x\<close> have quiet callbacks, the write
  returns normally after rerunning every listener of \<open>x\<close> in the order of the listener
  set, \<open>e\<close> among them, and \<open>e\<close> is still a listener afterwards. The callbacks range over
  all programs, those of effects that stop reading \<open>x\<close> included.
\<close>

theorem subscriptions_never_shrink:
  assumes "exec n t s = Some (r, s')" "x < nextCell s" "e \<in> set (listeners (cells s x))"
  shows "e \<in> set (listeners (cells s' x)) \<and>
         (\<forall>v m. isBatching s' \<and> \<not> object_is (state (cells s' x)) v \<longrightarrow>
            (\<exists>s''. set_state m x v s' = Some (Normal, s'') \<and> e \<in> set (batchQueue s''))) \<and>
         (\<forall>v m. \<not> isBatching s' \<and> \<not> object_is (state (cells s' x)) v \<and>
                (\<forall>e' \<in> set (listeners (cells s' x)). \<forall>c \<in> set (effects s' e'). quiet c) \<and>
                length (listeners (cells s' x)) < m \<longrightarrow>
            (\<exists>s''. set_state m x v s' = Some (Normal, s'') \<and>
                   trace s'' = trace s' @ Wrote x v # map Ran (listeners (cells s' x)) \<and>
                   Ran e \<in> set (drop (length (trace s')) (trace s'')) \<and>
                   e \<in> set (listeners (cells s'' x))))"
proof -
  from exec_keeps[OF assms(1)] assms(2,3)
  have m: "e \<in> set (listeners (cells s' x))" and x': "x < nextCell s'"
    unfolding keeps_def by auto
  show ?thesis
  proof (intro conjI allI impI)
    show "e \<in> set (listeners (cells s' x))" by (rule m)
  next
    fix v m
    assume "isBatching s' \<and> \<not> object_is (state (cells s' x)) v"
    with m show "\<exists>s''. set_state m x v s' = Some (Normal, s'') \<and> e \<in> set (batchQueue s'')"
      by (auto simp: set_state_def enqueue_def assign_def)
  next
    fix v m
    assume a: "\<not> isBatching s' \<and> \<not> object_is (state (cells s' x)) v \<and>
      (\<forall>e' \<in> set (listeners (cells s' x)). \<forall>c \<in> set (effects s' e'). quiet c) \<and>
      length (listeners (cells s' x)) < m"
    let ?s1 = "assign x v s'"
    have L: "listeners (cells ?s1 x) = listeners (cells s' x)" "effects ?s1 = effects s'"
      "\<not> isBatching ?s1" "trace ?s1 = trace s' @ [Wrote x v]"
      using a by (simp_all add: assign_def)
    from a L notify_quiet[of ?s1 x m] obtain s'' where
      s'': "exec m (BatchCall (NotifyListeners x)) ?s1 = Some (Normal, s'')"
        "reran (listeners (cells s' x)) ?s1 s''" by auto
    from a s''(1) have r: "set_state m x v s' = Some (Normal, s'')" by (simp add: set_state_def)
    from reran_fields(1)[OF s''(2)] L
    have t: "trace s'' = trace s' @ Wrote x v # map Ran (listeners (cells s' x))" by simp
    from m have ran: "Ran e \<in> set (drop (length (trace s')) (trace s''))" by (simp add: t)
    from r have "exec m (Stmt (Set x v)) s' = Some (Normal, s'')" by (simp add: set_state_def)
    from exec_keeps[OF this] x' m have "e \<in> set (listeners (cells s'' x))"
      unfolding keeps_def by auto
    with r t ran
    show "\<exists>s''. set_state m x v s' = Some (Normal, s'') \<and>
                   trace s'' = trace s' @ Wrote x v # map Ran (listeners (cells s' x)) \<and>
                   Ran e \<in> set (drop (length (trace s')) (trace s'')) \<and>
                   e \<in> set (listeners (cells s'' x))"
      by blast
  qed
qed

text \<open>
  Witness for C9: in \<open>conditional\<close> the effect reads signal 0 only while signal 1 holds 0.
  Signal 1 is set to 1: the effect is rerun and does not read signal 0. It is still a
  listener of signal 0, and a write to signal 0, outside any batch, reruns it.
\<close>

theorem subscriptions_never_shrink_witness:
  "\<exists>s'. set_state 2 1 (VNum (Fin 1)) conditional = Some (Normal, s') \<and>
        trace s' = [Wrote 1 (VNum (Fin 1)), Ran 0] \<and>
        0 \<in> set (listeners (cells s' 0)) \<and>
        (\<exists>s''. set_state 2 0 (VNum (Fin 7)) s' = Some (Normal, s'') \<and>
               trace s'' = [Wrote 1 (VNum (Fin 1)), Ran 0, Wrote 0 (VNum (Fin 7)), Ran 0] \<and>
               0 \<in> set (listeners (cells s'' 0)))"
proof -
  obtain s' where r: "exec 2 (Stmt (Set 1 (VNum (Fin 1)))) conditional = Some (Normal, s')"
    and t: "trace s' = [Wrote 1 (VNum (Fin 1)), Ran 0]" and v: "state (cells s' 0) = VNum (Fin 0)"
    and l: "listeners (cells s' 0) = [0]" and b: "\<not> isBatching s'"
    and f: "effects s' = effects conditional"
    by (simp add: conditional_def demo_def object_is_def assign_def enqueue_def get_def
        set_add_def new_Set_def numeral_2_eq_2)
  have x: "0 < nextCell conditional" "0 \<in> set (listeners (cells conditional 0))"
    by (simp_all add: conditional_def demo_def)
  have q: "\<forall>e' \<in> set (listeners (cells s' 0)). \<forall>c \<in> set (effects s' e'). quiet c"
    by (simp add: l f conditional_def)
  from subscriptions_never_shrink[OF r x] b v q l
  have "\<exists>s''. set_state 2 0 (VNum (Fin 7)) s' = Some (Normal, s'') \<and>
               trace s'' = trace s' @ Wrote 0 (VNum (Fin 7)) # map Ran (listeners (cells s' 0)) \<and>
               Ran 0 \<in> set (drop (length (trace s')) (trace s'')) \<and>
               0 \<in> set (listeners (cells s'' 0))"
    by (simp add: object_is_def)
  with r t l show ?thesis by (auto simp: set_state_def)
qed

text \<open>
  Counterexample to C9 as stated, run from the module as loaded: a signal holding 0 is
  created, then an effect that reads it and raises unless it holds 0, then an effect that
  reads it. Both effects are in the listener set, each added by the read of its own run.
  The write of 1 is value-changing and is made outside any batch: the listeners are called
  in order, the first raises, and the second, still subscribed, is not rerun.
\<close>

theorem subscriptions_never_shrink_counterexample:
  "map_option (\<lambda>(r, s'). (r, trace s', listeners (cells s' 0)))
     (exec 3 (Body [Create (VNum (Fin 0)),
                    Effect [IfIs 0 (VNum (Fin 0)) [] [Throw (VStr ''effect'')]],
                    Effect [Get 0],
                    Set 0 (VNum (Fin 1))]) init) =
   Some (Raised (VStr ''effect''), [Ran 0, Ran 1, Wrote 0 (VNum (Fin 1)), Ran 0], [0, 1])"
  by (simp add: init_def createState_def object_is_def assign_def enqueue_def get_def
      set_add_def new_Set_def numeral_3_eq_3)

section \<open>The document (the DOM interface dom.js uses)\<close>

subsection \<open>Numbers and other values\<close>

text \<open>
  The numbers of this part of the model. An integer from \<open>-2^53\<close> to \<open>2^53 - 1\<close> is
  a number of the language and is printed by \<open>String\<close> with all its digits (the exponent
  notation starts at \<open>10^21\<close>); \<open>NaN\<close>, the two infinities and the negative zero are
  printed as the language says. Any other number (one with a fraction, or a larger
  integer) is given by the string \<open>String\<close> returns for it, which determines the number:
  dom.js tests that a value is a number, stores it or converts it to a string, and
  computes nothing with it.
\<close>

datatype number =
  Integer "54 word" | NotANumber | PlusInfinity | MinusInfinity | MinusZero | Other string

text \<open>The values found in an \<open>attrs\<close> object or assigned to a property of an element, over
  a representation \<open>'f\<close> of functions.\<close>

datatype 'f jsval = AUndefined | ANull | ABool bool | ANum number | AStr string | AFun 'f

text \<open>The comparisons of a value with a literal: \<open>v === true\<close>, \<open>v === false\<close> and
  \<open>v == null\<close> (which holds of \<open>null\<close> and \<open>undefined\<close>).\<close>

definition is_true :: "'f jsval \<Rightarrow> bool" where
  "is_true v = (case v of ABool b \<Rightarrow> b | _ \<Rightarrow> False)"

definition is_false :: "'f jsval \<Rightarrow> bool" where
  "is_false v = (case v of ABool b \<Rightarrow> \<not> b | _ \<Rightarrow> False)"

definition nullish :: "'f jsval \<Rightarrow> bool" where
  "nullish v = (case v of ANull \<Rightarrow> True | AUndefined \<Rightarrow> True | _ \<Rightarrow> False)"

text \<open>A function held in a property of an element is represented by its identity.\<close>

type_synonym pval = "nat jsval"

type_synonym nid = nat

datatype kind = ElementK | TextK | FragmentK

text \<open>
  A node: its kind (\<open>nodeType\<close> 1, 3 or 11), for an element what \<open>tagName.toLowerCase()\<close>
  gives, the data of a text node (\<open>nodeValue\<close>; \<open>null\<close> for the other kinds), the
  attributes, the properties assigned by \<open>el[key] = value\<close>, the children and the parent.
\<close>

record dnode =
  kind :: kind
  tag :: string
  nodeValue :: "string option"
  attributes :: "(string \<times> string) list"
  props :: "(string \<times> pval) list"
  childNodes :: "nid list"
  parentNode :: "nid option"

text \<open>What the browser is asked to do later: \<open>requestAnimationFrame(() => el.focus())\<close>.\<close>

datatype dom_event = FocusRequested nid

record dom =
  nodes :: "nid \<Rightarrow> dnode"
  nextNode :: nid
  body :: "nid option"
  events :: "dom_event list"

datatype dom_error = TypeError | NotFoundError | HierarchyRequestError | InvalidCharacterError

subsection \<open>Strings\<close>

text \<open>
  A character is one of 256 code points, read as Latin-1. \<open>toLowerCase\<close> of the language
  lower-cases every letter; the DOM standard lower-cases only the letters \<open>A\<close> to \<open>Z\<close>
  (its ASCII lowercase).
\<close>

definition latin_upper :: string where
  "latin_upper = [CHR 0xC0, CHR 0xC1, CHR 0xC2, CHR 0xC3, CHR 0xC4, CHR 0xC5, CHR 0xC6, CHR 0xC7, CHR 0xC8, CHR 0xC9, CHR 0xCA, CHR 0xCB, CHR 0xCC, CHR 0xCD, CHR 0xCE, CHR 0xCF, CHR 0xD0, CHR 0xD1, CHR 0xD2, CHR 0xD3, CHR 0xD4, CHR 0xD5, CHR 0xD6, CHR 0xD8, CHR 0xD9, CHR 0xDA, CHR 0xDB, CHR 0xDC, CHR 0xDD, CHR 0xDE]"

definition latin_lower :: string where
  "latin_lower = [CHR 0xE0, CHR 0xE1, CHR 0xE2, CHR 0xE3, CHR 0xE4, CHR 0xE5, CHR 0xE6, CHR 0xE7, CHR 0xE8, CHR 0xE9, CHR 0xEA, CHR 0xEB, CHR 0xEC, CHR 0xED, CHR 0xEE, CHR 0xEF, CHR 0xF0, CHR 0xF1, CHR 0xF2, CHR 0xF3, CHR 0xF4, CHR 0xF5, CHR 0xF6, CHR 0xF8, CHR 0xF9, CHR 0xFA, CHR 0xFB, CHR 0xFC, CHR 0xFD, CHR 0xFE]"

definition ascii_lower_char :: "char \<Rightarrow> char" where
  "ascii_lower_char c =
     (case map_of (zip ''ABCDEFGHIJKLMNOPQRSTUVWXYZ'' ''abcdefghijklmnopqrstuvwxyz'') c of
        None \<Rightarrow> c
      | Some l \<Rightarrow> l)"

definition ascii_lower :: "string \<Rightarrow> string" where
  "ascii_lower s = map ascii_lower_char s"

definition lower_char :: "char \<Rightarrow> char" where
  "lower_char c =
     (case map_of (zip (''ABCDEFGHIJKLMNOPQRSTUVWXYZ'' @ latin_upper)
                       (''abcdefghijklmnopqrstuvwxyz'' @ latin_lower)) c of
        None \<Rightarrow> c
      | Some l \<Rightarrow> l)"

definition toLowerCase :: "string \<Rightarrow> string" where
  "toLowerCase s = map lower_char s"

text \<open>
  The names \<open>createElement\<close> and \<open>setAttribute\<close> accept: the \<open>Name\<close> production of XML,
  here on Latin-1. A name starts with a letter, \<open>_\<close> or \<open>:\<close> and goes on with letters,
  digits, \<open>_\<close>, \<open>:\<close>, \<open>-\<close>, \<open>.\<close> and the middle dot. (Every such name is also a valid name
  under the later, more permissive rule of the DOM standard.)
\<close>

definition name_start_char :: "char \<Rightarrow> bool" where
  "name_start_char c \<longleftrightarrow>
     c \<in> set (''ABCDEFGHIJKLMNOPQRSTUVWXYZabcdefghijklmnopqrstuvwxyz_:'' @
              latin_upper @ [CHR 0xDF] @ latin_lower @ [CHR 0xFF])"

definition name_char :: "char \<Rightarrow> bool" where
  "name_char c \<longleftrightarrow> name_start_char c \<or> c \<in> set (''-.0123456789'' @ [CHR 0xB7])"

fun valid_name :: "string \<Rightarrow> bool" where
  "valid_name [] = False"
| "valid_name (c # cs) = (name_start_char c \<and> list_all name_char cs)"

definition digit :: "nat \<Rightarrow> char" where
  "digit d = ''0123456789'' ! d"

fun string_of_nat :: "nat \<Rightarrow> string" where
  "string_of_nat n = (if n < 10 then [digit n] else string_of_nat (n div 10) @ [digit (n mod 10)])"

declare string_of_nat.simps [simp del]

definition string_of_int :: "int \<Rightarrow> string" where
  "string_of_int i = (if i < 0 then CHR ''-'' # string_of_nat (nat (- i)) else string_of_nat (nat i))"

text \<open>\<open>String(n)\<close> for a number.\<close>

fun number_String :: "number \<Rightarrow> string" where
  "number_String (Integer w) = string_of_int (sint w)"
| "number_String NotANumber = ''NaN''"
| "number_String PlusInfinity = ''Infinity''"
| "number_String MinusInfinity = ''-Infinity''"
| "number_String MinusZero = ''0''"
| "number_String (Other s) = s"

subsection \<open>Creating nodes\<close>

definition new_node :: "kind \<Rightarrow> string \<Rightarrow> string option \<Rightarrow> dom \<Rightarrow> nid \<times> dom" where
  "new_node k t v h =
     (nextNode h,
      h\<lparr>nodes := (nodes h)(nextNode h :=
            \<lparr>kind = k, tag = t, nodeValue = v, attributes = [], props = [],
             childNodes = [], parentNode = None\<rparr>),
        nextNode := Suc (nextNode h)\<rparr>)"

definition createTextNode :: "string \<Rightarrow> dom \<Rightarrow> nid \<times> dom" where
  "createTextNode s h = new_node TextK [] (Some s) h"

definition createDocumentFragment :: "dom \<Rightarrow> nid \<times> dom" where
  "createDocumentFragment h = new_node FragmentK [] None h"

text \<open>
  \<open>document.createElement(name)\<close> in an HTML document. A name that is not valid raises
  \<open>InvalidCharacterError\<close>. The element gets the name with \<open>A\<close> to \<open>Z\<close> lower-cased;
  \<open>tagName\<close> gives it with \<open>a\<close> to \<open>z\<close> upper-cased, and \<open>tagName.toLowerCase()\<close>, which
  is what the node of the model records, is therefore \<open>toLowerCase\<close> of the name given.
\<close>

definition dom_createElement :: "string \<Rightarrow> dom \<Rightarrow> dom_error + nid \<times> dom" where
  "dom_createElement t h =
     (if valid_name t then Inr (new_node ElementK (toLowerCase t) None h)
      else Inl InvalidCharacterError)"

subsection \<open>The tree\<close>

text \<open>\<open>p.contains(n)\<close>: \<open>n\<close> is \<open>p\<close> or a descendant of \<open>p\<close>. The walk up the parents is
  bounded by the number of nodes.\<close>

fun ancestor_chain :: "nat \<Rightarrow> (nid \<Rightarrow> dnode) \<Rightarrow> nid \<Rightarrow> nid \<Rightarrow> bool" where
  "ancestor_chain 0 ns p n = (n = p)"
| "ancestor_chain (Suc k) ns p n =
     (n = p \<or> (case parentNode (ns n) of None \<Rightarrow> False | Some q \<Rightarrow> ancestor_chain k ns p q))"

definition contains :: "dom \<Rightarrow> nid \<Rightarrow> nid \<Rightarrow> bool" where
  "contains h p n = ancestor_chain (nextNode h) (nodes h) p n"

definition set_children :: "nid \<Rightarrow> nid list \<Rightarrow> dom \<Rightarrow> dom" where
  "set_children p cs h = h\<lparr>nodes := (nodes h)(p := (nodes h p)\<lparr>childNodes := cs\<rparr>)\<rparr>"

definition set_parent :: "nid option \<Rightarrow> nid \<Rightarrow> dom \<Rightarrow> dom" where
  "set_parent q n h = h\<lparr>nodes := (nodes h)(n := (nodes h n)\<lparr>parentNode := q\<rparr>)\<rparr>"

text \<open>Removing a node from its parent, if it has one.\<close>

definition detach :: "nid \<Rightarrow> dom \<Rightarrow> dom" where
  "detach n h =
     (case parentNode (nodes h n) of
        None \<Rightarrow> h
      | Some q \<Rightarrow> set_parent None n (set_children q (remove1 n (childNodes (nodes h q))) h))"

definition next_sibling :: "dom \<Rightarrow> nid \<Rightarrow> nid option" where
  "next_sibling h n =
     (case parentNode (nodes h n) of
        None \<Rightarrow> None
      | Some q \<Rightarrow> (case tl (dropWhile (\<lambda>c. c \<noteq> n) (childNodes (nodes h q))) of
                     [] \<Rightarrow> None | c # cs \<Rightarrow> Some c))"

text \<open>Putting the nodes \<open>ns\<close> among the children of \<open>p\<close>, before \<open>ref\<close> or at the end.\<close>

definition splice :: "nid \<Rightarrow> nid list \<Rightarrow> nid option \<Rightarrow> dom \<Rightarrow> dom" where
  "splice p ns ref h =
     (let cs = childNodes (nodes h p);
          cs' = (case ref of
                   None \<Rightarrow> cs @ ns
                 | Some r \<Rightarrow> takeWhile (\<lambda>c. c \<noteq> r) cs @ ns @ dropWhile (\<lambda>c. c \<noteq> r) cs)
      in fold (set_parent (Some p)) ns (set_children p cs' h))"

text \<open>The insertion of \<open>n\<close>: a fragment gives its children and is left empty, any other
  node leaves its parent first.\<close>

definition insert_node :: "nid \<Rightarrow> nid \<Rightarrow> nid option \<Rightarrow> dom \<Rightarrow> dom" where
  "insert_node p n ref h =
     (if kind (nodes h n) = FragmentK
      then splice p (childNodes (nodes h n)) ref (set_children n [] h)
      else splice p [n] ref (detach n h))"

text \<open>\<open>p.insertBefore(n, child)\<close>, with the checks of the DOM standard: the parent can have
  children, \<open>n\<close> is not \<open>p\<close> or an ancestor of \<open>p\<close>, and \<open>child\<close> is a child of \<open>p\<close>.\<close>

definition insertBefore :: "nid \<Rightarrow> nid \<Rightarrow> nid option \<Rightarrow> dom \<Rightarrow> dom_error + dom" where
  "insertBefore p n child h =
     (if kind (nodes h p) = TextK then Inl HierarchyRequestError
      else if contains h n p then Inl HierarchyRequestError
      else if (case child of None \<Rightarrow> False | Some c \<Rightarrow> parentNode (nodes h c) \<noteq> Some p)
        then Inl NotFoundError
      else Inr (insert_node p n (if child = Some n then next_sibling h n else child) h))"

definition appendChild :: "nid \<Rightarrow> nid \<Rightarrow> dom \<Rightarrow> dom_error + dom" where
  "appendChild p n h = insertBefore p n None h"

text \<open>\<open>p.replaceChild(n, old)\<close>: \<open>old\<close> must be a child of \<open>p\<close>.\<close>

definition replaceChild :: "nid \<Rightarrow> nid \<Rightarrow> nid \<Rightarrow> dom \<Rightarrow> dom_error + dom" where
  "replaceChild p n old h =
     (if kind (nodes h p) = TextK then Inl HierarchyRequestError
      else if contains h n p then Inl HierarchyRequestError
      else if parentNode (nodes h old) \<noteq> Some p then Inl NotFoundError
      else
        (let ref = (if next_sibling h old = Some n then next_sibling h n else next_sibling h old)
         in Inr (insert_node p n ref (detach old h))))"

definition removeChild :: "nid \<Rightarrow> nid \<Rightarrow> dom \<Rightarrow> dom_error + dom" where
  "removeChild p c h =
     (if parentNode (nodes h c) \<noteq> Some p then Inl NotFoundError else Inr (detach c h))"

text \<open>\<open>el.childNodes[i]\<close>.\<close>

definition child_at :: "dom \<Rightarrow> nid \<Rightarrow> nat \<Rightarrow> nid option" where
  "child_at h p i = (let cs = childNodes (nodes h p) in if i < length cs then Some (cs ! i) else None)"

subsection \<open>Attributes\<close>

text \<open>
  On an element of an HTML document \<open>getAttribute\<close>, \<open>setAttribute\<close> and
  \<open>removeAttribute\<close> lower-case the letters \<open>A\<close> to \<open>Z\<close> of the name they are given, and
  \<open>setAttribute\<close> raises \<open>InvalidCharacterError\<close> for a name that is not valid.
\<close>

definition getAttribute :: "dom \<Rightarrow> nid \<Rightarrow> string \<Rightarrow> string option" where
  "getAttribute h n k = map_of (attributes (nodes h n)) (ascii_lower k)"

definition setAttribute :: "nid \<Rightarrow> string \<Rightarrow> string \<Rightarrow> dom \<Rightarrow> dom_error + dom" where
  "setAttribute n k v h =
     (if valid_name k
      then Inr (h\<lparr>nodes := (nodes h)(n := (nodes h n)
                  \<lparr>attributes := AList.update (ascii_lower k) v (attributes (nodes h n))\<rparr>)\<rparr>)
      else Inl InvalidCharacterError)"

definition removeAttribute :: "nid \<Rightarrow> string \<Rightarrow> dom \<Rightarrow> dom" where
  "removeAttribute n k h =
     h\<lparr>nodes := (nodes h)(n := (nodes h n)
          \<lparr>attributes := AList.delete (ascii_lower k) (attributes (nodes h n))\<rparr>)\<rparr>"

definition set_prop :: "nid \<Rightarrow> string \<Rightarrow> pval \<Rightarrow> dom \<Rightarrow> dom" where
  "set_prop n k v h =
     h\<lparr>nodes := (nodes h)(n := (nodes h n)\<lparr>props := AList.update k v (props (nodes h n))\<rparr>)\<rparr>"

definition emit :: "dom_event \<Rightarrow> dom \<Rightarrow> dom" where
  "emit ev h = h\<lparr>events := events h @ [ev]\<rparr>"

section \<open>Description nodes (core.js)\<close>

text \<open>
  A function of the client found in a description: its identity, the text \<open>String\<close>
  gives for it, and what a call of it with a node does to the document (it may raise).
\<close>

datatype fn = Function (ident: nat) (source: string) (run: "nid \<Rightarrow> dom \<Rightarrow> dom_error + dom")

text \<open>The values of an \<open>attrs\<close> object, and the object as the list of its entries in the
  order of \<open>Object.entries\<close>.\<close>

type_synonym aval = "fn jsval"

type_synonym attrs = "(string \<times> aval) list"

text \<open>What is kept of a value that is assigned to a property of an element.\<close>

definition stored :: "aval \<Rightarrow> pval" where
  "stored v = map_jsval ident v"

text \<open>The \<open>hooks\<close> object: \<open>onMount\<close> is absent or a function.\<close>

record hooks =
  onMount :: "fn option"

text \<open>
  What \<open>patch\<close> is given as a description: \<open>null\<close>, \<open>undefined\<close>, a boolean, a number, a
  string, an array, or an object \<open>{tag, attrs, children, hooks}\<close>. The \<open>tag\<close> of an
  object is a string (\<open>VElem\<close>) or a component function (\<open>VComp\<close>). The only use the
  source makes of a component function is the call \<open>newNode.tag(newNode.attrs)\<close>, so a
  component description carries the description that call returns. \<open>attrs\<close> may be
  \<open>null\<close> (\<open>None\<close>).
\<close>

datatype vnode =
    VNull
  | VUndefined
  | VBool bool
  | VNum number
  | VStr string
  | VArray "vnode list"
  | VElem string "attrs option" "vnode list" hooks
  | VComp vnode "attrs option" "vnode list" hooks

text \<open>The arguments of \<open>Vnode\<close>: the tag, and \<open>attrs\<close> with its default.\<close>

datatype tag_arg = TagName string | TagFn vnode

datatype attrs_arg = AttrsOmitted | AttrsNull | Attrs attrs

text \<open>\<open>Array.prototype.flat()\<close>: one level.\<close>

fun flat :: "vnode list \<Rightarrow> vnode list" where
  "flat [] = []"
| "flat (VArray xs # cs) = xs @ flat cs"
| "flat (c # cs) = c # flat cs"

text \<open>\<open>Array.isArray(children) ? children.flat() : [children]\<close>, with the default \<open>[]\<close> for
  an omitted (\<open>undefined\<close>) argument.\<close>

fun normalize_children :: "vnode \<Rightarrow> vnode list" where
  "normalize_children VUndefined = []"
| "normalize_children (VArray cs) = flat cs"
| "normalize_children c = [c]"

fun attrs_default :: "attrs_arg \<Rightarrow> attrs option" where
  "attrs_default AttrsOmitted = Some []"
| "attrs_default AttrsNull = None"
| "attrs_default (Attrs a) = Some a"

fun Vnode :: "tag_arg \<Rightarrow> attrs_arg \<Rightarrow> vnode \<Rightarrow> vnode" where
  "Vnode (TagName t) a children = VElem t (attrs_default a) (normalize_children children) \<lparr>onMount = None\<rparr>"
| "Vnode (TagFn f) a children = VComp f (attrs_default a) (normalize_children children) \<lparr>onMount = None\<rparr>"

text \<open>The \<open>hooks\<close> field of a description object.\<close>

fun vnode_hooks :: "vnode \<Rightarrow> hooks option" where
  "vnode_hooks (VElem t a cs hk) = Some hk"
| "vnode_hooks (VComp f a cs hk) = Some hk"
| "vnode_hooks v = None"

text \<open>\<open>String(value)\<close> on the primitives.\<close>

fun to_String :: "vnode \<Rightarrow> string" where
  "to_String (VStr s) = s"
| "to_String (VNum n) = number_String n"
| "to_String (VBool b) = (if b then ''true'' else ''false'')"
| "to_String VNull = ''null''"
| "to_String VUndefined = ''undefined''"
| "to_String v = ''''"

section \<open>Reconciliation (dom.js)\<close>

text \<open>\<open>child !== false && child !== null && child !== undefined\<close>\<close>

definition keep :: "vnode \<Rightarrow> bool" where
  "keep child = (case child of VBool b \<Rightarrow> b | VNull \<Rightarrow> False | VUndefined \<Rightarrow> False | _ \<Rightarrow> True)"

text \<open>\<open>String(value)\<close> on the values \<open>setAttribute\<close> is given.\<close>

fun aval_String :: "aval \<Rightarrow> string" where
  "aval_String (AStr s) = s"
| "aval_String (ANum n) = number_String n"
| "aval_String (ABool b) = (if b then ''true'' else ''false'')"
| "aval_String ANull = ''null''"
| "aval_String AUndefined = ''undefined''"
| "aval_String (AFun f) = source f"

text \<open>\<open>patchText\<close>\<close>

definition patchText :: "nid \<Rightarrow> nid option \<Rightarrow> vnode \<Rightarrow> dom \<Rightarrow> dom_error + (nid option \<times> dom)" where
  "patchText parent oldNode text h =
     (if (case oldNode of None \<Rightarrow> False | Some old \<Rightarrow> nodeValue (nodes h old) = Some (to_String text))
      then Inr (oldNode, h)
      else
        (let (newText, h1) = createTextNode (to_String text) h in
         case (case oldNode of
                 None \<Rightarrow> appendChild parent newText h1
               | Some old \<Rightarrow> if contains h1 parent old then replaceChild parent newText old h1
                            else appendChild parent newText h1) of
           Inl e \<Rightarrow> Inl e
         | Inr h2 \<Rightarrow> Inr (Some newText, h2)))"

text \<open>\<open>newNode.tag\<close> of a description: a string, or something no tag name equals.\<close>

fun vnode_tag :: "vnode \<Rightarrow> string option" where
  "vnode_tag (VElem t a cs hk) = Some t"
| "vnode_tag v = None"

text \<open>\<open>shouldReplace\<close>. A fragment has no \<open>tagName\<close>: reading \<open>toLowerCase\<close> of it raises.\<close>

definition shouldReplace :: "dom \<Rightarrow> nid \<Rightarrow> vnode \<Rightarrow> dom_error + bool" where
  "shouldReplace h oldNode newNode =
     (let isOldText = (kind (nodes h oldNode) = TextK);
          isNewText = (case newNode of VStr s \<Rightarrow> True | VNum i \<Rightarrow> True | _ \<Rightarrow> False)
      in if isOldText \<noteq> isNewText then Inr True
         else if isNewText then Inr False
         else if kind (nodes h oldNode) = FragmentK then Inl TypeError
         else Inr (Some (tag (nodes h oldNode)) \<noteq> vnode_tag newNode))"

text \<open>One turn of the loop of \<open>updateElement\<close> over \<open>Object.entries(vnode.attrs)\<close>.
  \<open>el instanceof HTMLInputElement\<close> holds for the elements created under the name
  \<open>input\<close>.\<close>

definition is_input :: "dom \<Rightarrow> nid \<Rightarrow> bool" where
  "is_input h el = (kind (nodes h el) = ElementK \<and> tag (nodes h el) = ''input'')"

definition is_function :: "aval \<Rightarrow> bool" where
  "is_function v = (case v of AFun f \<Rightarrow> True | _ \<Rightarrow> False)"

definition apply_attr :: "nid \<Rightarrow> string \<times> aval \<Rightarrow> dom \<Rightarrow> dom_error + dom" where
  "apply_attr el kv h =
     (let key = fst kv; v = snd kv in
      if key = ''ref'' then (case v of AFun f \<Rightarrow> run f el h | _ \<Rightarrow> Inl TypeError)
      else if key = ''focus'' \<and> is_true v then Inr (emit (FocusRequested el) h)
      else if take 2 key = ''on'' \<and> is_function v then Inr (set_prop el (toLowerCase key) (stored v) h)
      else if key = ''value'' \<and> is_input h el then Inr (set_prop el ''value'' (stored v) h)
      else if key = ''checked'' \<and> is_input h el then Inr (set_prop el ''checked'' (stored v) h)
      else if is_true v then setAttribute el key [] h
      else if is_false v then Inr (removeAttribute el key h)
      else if \<not> is_false v \<and> \<not> nullish v then setAttribute el key (aval_String v) h
      else Inr h)"

fun apply_attrs :: "nid \<Rightarrow> attrs \<Rightarrow> dom \<Rightarrow> dom_error + dom" where
  "apply_attrs el [] h = Inr h"
| "apply_attrs el (kv # kvs) h =
     (case apply_attr el kv h of Inl e \<Rightarrow> Inl e | Inr h1 \<Rightarrow> apply_attrs el kvs h1)"

text \<open>\<open>getKeyedNodes\<close>: the \<open>Map\<close> from the \<open>key\<close> attribute of the element nodes to the
  node; a later node with the same key takes the entry.\<close>

definition getKeyedNodes :: "dom \<Rightarrow> nid list \<Rightarrow> (string \<rightharpoonup> nid)" where
  "getKeyedNodes h ns =
     fold (\<lambda>node keyed.
             if kind (nodes h node) = ElementK
             then (case getAttribute h node ''key'' of None \<Rightarrow> keyed | Some key \<Rightarrow> keyed(key \<mapsto> node))
             else keyed)
          ns Map.empty"

text \<open>\<open>typeof child === 'object' ? child.attrs?.key : null\<close>\<close>

fun child_key :: "vnode \<Rightarrow> aval" where
  "child_key (VElem t (Some a) cs hk) = (case map_of a ''key'' of None \<Rightarrow> AUndefined | Some v \<Rightarrow> v)"
| "child_key (VComp f (Some a) cs hk) = (case map_of a ''key'' of None \<Rightarrow> AUndefined | Some v \<Rightarrow> v)"
| "child_key (VElem t None cs hk) = AUndefined"
| "child_key (VComp f None cs hk) = AUndefined"
| "child_key (VArray cs) = AUndefined"
| "child_key v = ANull"

text \<open>\<open>keyedOld.has(key)\<close> and \<open>keyedOld.get(key)\<close>: the keys of the map are strings, and a
  \<open>Map\<close> compares keys without conversion.\<close>

fun keyed_get :: "(string \<rightharpoonup> nid) \<Rightarrow> aval \<Rightarrow> nid option" where
  "keyed_get keyed (AStr k) = keyed k"
| "keyed_get keyed v = None"

text \<open>\<open>key != null && keyedOld.has(key) ? keyedOld.get(key) : oldChildren[i]\<close>\<close>

definition comparison_target :: "(string \<rightharpoonup> nid) \<Rightarrow> nid list \<Rightarrow> nat \<Rightarrow> vnode \<Rightarrow> nid option" where
  "comparison_target keyedOld oldChildren i child =
     (let key = child_key child in
      if \<not> nullish key \<and> keyed_get keyedOld key \<noteq> None
      then keyed_get keyedOld key
      else if i < length oldChildren then Some (oldChildren ! i) else None)"

text \<open>The second loop of \<open>reconcileChildren\<close>.\<close>

fun reinsert :: "nid \<Rightarrow> nid option list \<Rightarrow> nat \<Rightarrow> dom \<Rightarrow> dom_error + dom" where
  "reinsert el [] i h = Inr h"
| "reinsert el (None # rest) i h = Inl TypeError"
| "reinsert el (Some node # rest) i h =
     (if child_at h el i \<noteq> Some node
      then (case insertBefore el node (child_at h el i) h of
              Inl e \<Rightarrow> Inl e
            | Inr h1 \<Rightarrow> reinsert el rest (Suc i) h1)
      else reinsert el rest (Suc i) h)"

text \<open>The third loop: \<open>while (el.childNodes.length > n) el.removeChild(el.lastChild)\<close>.\<close>

function trim :: "nid \<Rightarrow> nat \<Rightarrow> dom \<Rightarrow> dom_error + dom" where
  "trim el n h =
     (if length (childNodes (nodes h el)) > n
      then (case removeChild el (last (childNodes (nodes h el))) h of
              Inl e \<Rightarrow> Inl e
            | Inr h1 \<Rightarrow> trim el n h1)
      else Inr h)"
  by pat_completeness auto
termination
proof (relation "measure (\<lambda>(el, n, h). length (childNodes (nodes h el)) - n)")
  show "wf (measure (\<lambda>(el, n, h). length (childNodes (nodes h el)) - n))" by simp
next
  fix el n h h1
  assume a: "n < length (childNodes (nodes h el))"
    and r: "removeChild el (last (childNodes (nodes h el))) h = Inr h1"
  let ?cs = "childNodes (nodes h el)"
  from a have ne: "?cs \<noteq> []" by auto
  from r have p: "parentNode (nodes h (last ?cs)) = Some el" and h1: "h1 = detach (last ?cs) h"
    by (auto simp: removeChild_def split: if_splits)
  from ne have mem: "last ?cs \<in> set ?cs" by simp
  have "length (childNodes (nodes h1 el)) = length (remove1 (last ?cs) ?cs)"
    using p h1 by (simp add: detach_def set_parent_def set_children_def)
  with mem ne have "length (childNodes (nodes h1 el)) < length ?cs"
    by (simp add: length_remove1)
  with a show "((el, n, h1), (el, n, h)) \<in> measure (\<lambda>(el, n, h). length (childNodes (nodes h el)) - n)"
    by simp
qed

declare trim.simps [simp del]

text \<open>\<open>componentVNode.hooks = newNode.hooks\<close>: an assignment to a property of \<open>null\<close>,
  \<open>undefined\<close> or (in a module, which is strict code) of a primitive raises.\<close>

fun set_hooks :: "vnode \<Rightarrow> hooks \<Rightarrow> dom_error + vnode" where
  "set_hooks (VElem t a cs old) hk = Inr (VElem t a cs hk)"
| "set_hooks (VComp f a cs old) hk = Inr (VComp f a cs hk)"
| "set_hooks (VArray cs) hk = Inr (VArray cs)"
| "set_hooks v hk = Inl TypeError"

text \<open>\<open>if (vnode.hooks.onMount) vnode.hooks.onMount(el)\<close>: the call of a function of the
  client with the element.\<close>

definition mount :: "hooks \<Rightarrow> nid \<Rightarrow> dom \<Rightarrow> dom_error + dom" where
  "mount hk el h = (case onMount hk of None \<Rightarrow> Inr h | Some f \<Rightarrow> run f el h)"

function patch :: "nid option \<Rightarrow> nid option \<Rightarrow> vnode \<Rightarrow> dom \<Rightarrow> dom_error + (nid option \<times> dom)"
  and patchFragment :: "nid option \<Rightarrow> nid option \<Rightarrow> vnode list \<Rightarrow> dom \<Rightarrow> dom_error + (nid option \<times> dom)"
  and appendEach :: "nid option \<Rightarrow> nid \<Rightarrow> vnode list \<Rightarrow> dom \<Rightarrow> dom_error + dom"
  and replaceNode :: "nid \<Rightarrow> nid option \<Rightarrow> vnode \<Rightarrow> dom \<Rightarrow> dom_error + (nid option \<times> dom)"
  and createElement :: "vnode \<Rightarrow> dom \<Rightarrow> dom_error + (nid option \<times> dom)"
  and updateElement :: "nid \<Rightarrow> vnode \<Rightarrow> dom \<Rightarrow> dom_error + dom"
  and reconcileChildren :: "nid \<Rightarrow> vnode list \<Rightarrow> dom \<Rightarrow> dom_error + dom"
  and patchEach :: "nid \<Rightarrow> (string \<rightharpoonup> nid) \<Rightarrow> nid list \<Rightarrow> nat \<Rightarrow> vnode list \<Rightarrow> nid option list \<Rightarrow> dom
                    \<Rightarrow> dom_error + (nid option list \<times> dom)"
where
  "patch None oldNode newNode h = Inr (None, h)"
| "patch (Some parent) oldNode VNull h = (let (t, h1) = createTextNode [] h in Inr (Some t, h1))"
| "patch (Some parent) oldNode VUndefined h = (let (t, h1) = createTextNode [] h in Inr (Some t, h1))"
| "patch (Some parent) oldNode (VArray cs) h = patchFragment (Some parent) oldNode cs h"
| "patch (Some parent) oldNode (VBool b) h = patchText parent oldNode (VBool b) h"
| "patch (Some parent) oldNode (VNum i) h = patchText parent oldNode (VNum i) h"
| "patch (Some parent) oldNode (VStr s) h = patchText parent oldNode (VStr s) h"
| "patch (Some parent) oldNode (VComp f a cs hk) h =
     (case set_hooks f hk of
        Inl e \<Rightarrow> Inl e
      | Inr componentVNode \<Rightarrow> patch (Some parent) oldNode componentVNode h)"
| "patch (Some parent) oldNode (VElem t a cs hk) h =
     (case oldNode of
        None \<Rightarrow> replaceNode parent oldNode (VElem t a cs hk) h
      | Some old \<Rightarrow>
          (case shouldReplace h old (VElem t a cs hk) of
             Inl e \<Rightarrow> Inl e
           | Inr True \<Rightarrow> replaceNode parent oldNode (VElem t a cs hk) h
           | Inr False \<Rightarrow>
               (case updateElement old (VElem t a cs hk) h of
                  Inl e \<Rightarrow> Inl e
                | Inr h1 \<Rightarrow> Inr (Some old, h1))))"
| "patchFragment parent oldNode children h =
     (let (fragment, h1) = createDocumentFragment h in
      case appendEach parent fragment (filter keep children) h1 of
        Inl e \<Rightarrow> Inl e
      | Inr h2 \<Rightarrow> Inr (Some fragment, h2))"
| "appendEach parent fragment [] h = Inr h"
| "appendEach parent fragment (child # rest) h =
     (case patch parent None child h of
        Inl e \<Rightarrow> Inl e
      | Inr (None, h1) \<Rightarrow> Inl TypeError
      | Inr (Some node, h1) \<Rightarrow>
          (case appendChild fragment node h1 of
             Inl e \<Rightarrow> Inl e
           | Inr h2 \<Rightarrow> appendEach parent fragment rest h2))"
| "replaceNode parent oldNode newNode h =
     (case createElement newNode h of
        Inl e \<Rightarrow> Inl e
      | Inr (None, h1) \<Rightarrow> Inl TypeError
      | Inr (Some newDOM, h1) \<Rightarrow>
          (case (case oldNode of
                   None \<Rightarrow> appendChild parent newDOM h1
                 | Some old \<Rightarrow> if contains h1 parent old then replaceChild parent newDOM old h1
                              else appendChild parent newDOM h1) of
             Inl e \<Rightarrow> Inl e
           | Inr h2 \<Rightarrow> Inr (Some newDOM, h2)))"
| "createElement VNull h = (let (t, h1) = createTextNode [] h in Inr (Some t, h1))"
| "createElement VUndefined h = (let (t, h1) = createTextNode [] h in Inr (Some t, h1))"
| "createElement (VArray cs) h = patchFragment None None (filter keep cs) h"
| "createElement (VBool b) h = (let (t, h1) = createTextNode (to_String (VBool b)) h in Inr (Some t, h1))"
| "createElement (VNum i) h = (let (t, h1) = createTextNode (to_String (VNum i)) h in Inr (Some t, h1))"
| "createElement (VStr s) h = (let (t, h1) = createTextNode (to_String (VStr s)) h in Inr (Some t, h1))"
| "createElement (VComp f a cs hk) h = Inl InvalidCharacterError"
| "createElement (VElem t a cs hk) h =
     (if t = ''body'' \<and> body h \<noteq> None then
        (let existingBody = the (body h) in
         case mount hk existingBody h of
           Inl e \<Rightarrow> Inl e
         | Inr h1 \<Rightarrow>
             (case updateElement existingBody (VElem t a cs hk) h1 of
                Inl e \<Rightarrow> Inl e
              | Inr h2 \<Rightarrow> Inr (Some existingBody, h2)))
      else
        (case dom_createElement t h of
           Inl e \<Rightarrow> Inl e
         | Inr (el, h1) \<Rightarrow>
             (case mount hk el h1 of
                Inl e \<Rightarrow> Inl e
              | Inr h2 \<Rightarrow>
                  (case updateElement el (VElem t a cs hk) h2 of
                     Inl e \<Rightarrow> Inl e
                   | Inr h3 \<Rightarrow> Inr (Some el, h3)))))"
| "updateElement el (VElem t a cs hk) h =
     (case a of
        None \<Rightarrow> Inr h
      | Some as \<Rightarrow>
          (case apply_attrs el as h of
             Inl e \<Rightarrow> Inl e
           | Inr h1 \<Rightarrow> reconcileChildren el cs h1))"
| "updateElement el (VComp f a cs hk) h =
     (case a of
        None \<Rightarrow> Inr h
      | Some as \<Rightarrow>
          (case apply_attrs el as h of
             Inl e \<Rightarrow> Inl e
           | Inr h1 \<Rightarrow> reconcileChildren el cs h1))"
| "updateElement el VNull h = Inl TypeError"
| "updateElement el VUndefined h = Inl TypeError"
| "updateElement el (VArray cs) h = Inr h"
| "updateElement el (VBool b) h = Inr h"
| "updateElement el (VNum i) h = Inr h"
| "updateElement el (VStr s) h = Inr h"
| "reconcileChildren el children h =
     (let oldChildren = childNodes (nodes h el);
          keyedOld = getKeyedNodes h oldChildren
      in case patchEach el keyedOld oldChildren 0 (filter keep children) [] h of
           Inl e \<Rightarrow> Inl e
         | Inr (newOrder, h1) \<Rightarrow>
             (case reinsert el newOrder 0 h1 of
                Inl e \<Rightarrow> Inl e
              | Inr h2 \<Rightarrow> trim el (length newOrder) h2))"
| "patchEach el keyedOld oldChildren i [] newOrder h = Inr (newOrder, h)"
| "patchEach el keyedOld oldChildren i (child # rest) newOrder h =
     (case patch (Some el) (comparison_target keyedOld oldChildren i child) child h of
        Inl e \<Rightarrow> Inl e
      | Inr (node, h1) \<Rightarrow> patchEach el keyedOld oldChildren (Suc i) rest (newOrder @ [node]) h1)"
  by pat_completeness auto
termination
proof -
  have filt: "size_list size (filter keep cs) \<le> size_list size cs" for cs :: "vnode list"
    by (induction cs) auto
  have sh: "size v = size f" if "set_hooks f hk = Inr v" for f hk v
    using that by (cases f) auto
  have f1: "10 * size_list size (filter keep cs) < Suc (10 * size_list size cs)" for cs :: "vnode list"
    using filt[of cs] by simp
  have f2: "10 * size_list size (filter keep cs) < 11 + 10 * size_list size cs" for cs :: "vnode list"
    using filt[of cs] by simp
  let ?m = "case_sum
      (case_sum
        (case_sum (\<lambda>(p, old, v, h). 10 * size v + 5) (\<lambda>(p, old, cs, h). 10 * size_list size cs + 2))
        (case_sum (\<lambda>(p, fr, cs, h). 10 * size_list size cs + 1) (\<lambda>(p, old, v, h). 10 * size v + 4)))
      (case_sum
        (case_sum (\<lambda>(v, h). 10 * size v + 3) (\<lambda>(el, v, h). 10 * size v + 2))
        (case_sum (\<lambda>(el, cs, h). 10 * size_list size cs + 2)
                  (\<lambda>(el, k, old, i, cs, acc, h). 10 * size_list size cs + 1)))"
  show ?thesis
    by (relation "measure ?m") (auto simp: f1 f2 dest!: sh)
qed

declare reconcileChildren.simps [simp del] patchFragment.simps [simp del] replaceNode.simps [simp del]

subsection \<open>Well-formed documents\<close>

text \<open>Every parent and every child named in the document is a node that was created.\<close>

definition allocated :: "dom \<Rightarrow> bool" where
  "allocated h \<longleftrightarrow>
     (\<forall>n q. parentNode (nodes h n) = Some q \<longrightarrow> q < nextNode h) \<and>
     (\<forall>n c. c \<in> set (childNodes (nodes h n)) \<longrightarrow> c < nextNode h)"

text \<open>The primitives of the text path of \<open>patch\<close> that the claims are about: a string
  or a number.\<close>

definition is_text :: "vnode \<Rightarrow> bool" where
  "is_text v = (case v of VStr s \<Rightarrow> True | VNum i \<Rightarrow> True | _ \<Rightarrow> False)"

subsection \<open>The tree of a description\<close>


text \<open>For an inert entry: it is assigned to a property of the element (an event handler, or
  \<open>value\<close> and \<open>checked\<close> of an \<open>input\<close>) rather than handed to the attributes.\<close>

definition sets_prop :: "bool \<Rightarrow> string \<times> aval \<Rightarrow> bool" where
  "sets_prop inp kv \<longleftrightarrow>
     (take 2 (fst kv) = ''on'' \<and> is_function (snd kv)) \<or>
     ((fst kv = ''value'' \<or> fst kv = ''checked'') \<and> inp)"

text \<open>
  What an inert entry does to the attributes and to the properties of an element
  (\<open>inp\<close> says whether it is an \<open>input\<close>): \<open>true\<close> sets the empty attribute, \<open>false\<close>
  removes the attribute, \<open>null\<close> and \<open>undefined\<close> do nothing, any other value sets the
  attribute to its string.
\<close>

definition attr_entry :: "bool \<Rightarrow> string \<times> aval \<Rightarrow> (string \<times> string) list \<Rightarrow> (string \<times> string) list" where
  "attr_entry inp kv al =
     (if sets_prop inp kv \<or> nullish (snd kv) then al
      else if is_false (snd kv) then AList.delete (ascii_lower (fst kv)) al
      else AList.update (ascii_lower (fst kv))
             (if is_true (snd kv) then [] else aval_String (snd kv)) al)"

definition prop_entry :: "bool \<Rightarrow> string \<times> aval \<Rightarrow> (string \<times> pval) list \<Rightarrow> (string \<times> pval) list" where
  "prop_entry inp kv pl =
     (if sets_prop inp kv then AList.update (toLowerCase (fst kv)) (stored (snd kv)) pl else pl)"

text \<open>The attributes and the properties that the entries of \<open>attrs\<close> give a new element.\<close>

definition attributes_of :: "bool \<Rightarrow> attrs \<Rightarrow> (string \<times> string) list" where
  "attributes_of inp as = fold (attr_entry inp) as []"

definition props_of :: "bool \<Rightarrow> attrs \<Rightarrow> (string \<times> pval) list" where
  "props_of inp as = fold (prop_entry inp) as []"







text \<open>
  Node \<open>n\<close> of the document is the tree of a description as \<open>patch\<close> creates it, built of
  nodes numbered from \<open>lo\<close> up to \<open>hi\<close>. A text node holds the string of the primitive. An
  element has the tag of the description; with \<open>attrs\<close> it has the attributes and the
  properties the entries give and one child for each child that is kept, and with \<open>null\<close>
  for \<open>attrs\<close> it has no attribute, no property and no child. The tree of a component is
  the tree of the description it returns.
\<close>

fun renders :: "nat \<Rightarrow> nat \<Rightarrow> dom \<Rightarrow> nid \<Rightarrow> vnode \<Rightarrow> bool" where
  "renders lo hi h n (VElem t a cs hk) =
     (lo \<le> n \<and> n < hi \<and> kind (nodes h n) = ElementK \<and> tag (nodes h n) = t \<and>
      (case a of
         None \<Rightarrow> attributes (nodes h n) = [] \<and> props (nodes h n) = [] \<and> childNodes (nodes h n) = []
       | Some as \<Rightarrow>
           attributes (nodes h n) = attributes_of (t = ''input'') as \<and>
           props (nodes h n) = props_of (t = ''input'') as \<and>
           list_all2 (renders lo hi h) (childNodes (nodes h n)) (filter keep cs)))"
| "renders lo hi h n (VComp f a cs hk) = renders lo hi h n f"
| "renders lo hi h n v =
     (lo \<le> n \<and> n < hi \<and> kind (nodes h n) = TextK \<and> nodeValue (nodes h n) = Some (to_String v))"



subsection \<open>Notions used in the proofs\<close>




text \<open>What an inert entry does: it changes the attributes and the properties of the element,
  and nothing else.\<close>

definition retouched :: "nid \<Rightarrow> dom \<Rightarrow> dom \<Rightarrow> bool" where
  "retouched n h h' \<longleftrightarrow>
     (\<exists>al pl. h' = h\<lparr>nodes := (nodes h)(n := (nodes h n)\<lparr>attributes := al, props := pl\<rparr>)\<rparr>)"





subsection \<open>Example documents\<close>


text \<open>A container element and nothing else.\<close>
definition page :: dom where
  "page = \<lparr>nodes = (\<lambda>n. \<lparr>kind = ElementK, tag = ''div'', nodeValue = None, attributes = [],
                           props = [], childNodes = [], parentNode = None\<rparr>),
           nextNode = 1, body = None, events = []\<rparr>"

text \<open>A container (node 0) holding the text node 1 (the text 5), and the detached text node 2.\<close>
definition counter_page :: dom where
  "counter_page =
     \<lparr>nodes = (\<lambda>n. if n = 0 then \<lparr>kind = ElementK, tag = ''div'', nodeValue = None, attributes = [],
                                   props = [], childNodes = [1], parentNode = None\<rparr>
                    else \<lparr>kind = TextK, tag = [], nodeValue = Some ''5'', attributes = [],
                          props = [], childNodes = [], parentNode = (if n = 1 then Some 0 else None)\<rparr>),
      nextNode = 3, body = None, events = []\<rparr>"









section \<open>Properties of the reconciler\<close>

subsection \<open>Comparisons with a literal\<close>

lemma is_true_iff [simp]: "is_true v \<longleftrightarrow> v = ABool True"
  by (cases v) (simp_all add: is_true_def)

lemma is_false_iff [simp]: "is_false v \<longleftrightarrow> v = ABool False"
  by (cases v) (simp_all add: is_false_def)

lemma nullish_iff [simp]: "nullish v \<longleftrightarrow> v = ANull \<or> v = AUndefined"
  by (cases v) (simp_all add: nullish_def)

lemma keep_iff: "keep child \<longleftrightarrow> child \<noteq> VBool False \<and> child \<noteq> VNull \<and> child \<noteq> VUndefined"
  by (cases child) (simp_all add: keep_def)

subsection \<open>Walking up the parents\<close>

lemma ancestor_chain_numeral:
  "ancestor_chain (numeral k) ns p n =
     (n = p \<or> (case parentNode (ns n) of None \<Rightarrow> False
                | Some q \<Rightarrow> ancestor_chain (pred_numeral k) ns p q))"
  by (simp add: numeral_eq_Suc)

lemma chain_self: "ancestor_chain k ns p p"
  by (cases k) simp_all

lemma chain_fresh_target:
  "allocated h \<Longrightarrow> p < nextNode h \<Longrightarrow>
     \<not> ancestor_chain k ((nodes h)(nextNode h := nd)) (nextNode h) p"
proof (induction k arbitrary: p)
  case 0
  then show ?case by simp
next
  case (Suc k)
  show ?case
  proof (cases "parentNode (nodes h p)")
    case None
    with Suc.prems show ?thesis by simp
  next
    case (Some q)
    with Suc.prems have "q < nextNode h" unfolding allocated_def by blast
    from Suc.IH[OF Suc.prems(1) this] Some Suc.prems(2) show ?thesis by simp
  qed
qed

lemma chain_fresh_node:
  "allocated h \<Longrightarrow> n < nextNode h \<Longrightarrow>
     ancestor_chain k ((nodes h)(nextNode h := nd)) p n = ancestor_chain k (nodes h) p n"
proof (induction k arbitrary: n)
  case 0
  then show ?case by simp
next
  case (Suc k)
  show ?case
  proof (cases "parentNode (nodes h n)")
    case None
    with Suc.prems show ?thesis by simp
  next
    case (Some q)
    with Suc.prems have "q < nextNode h" unfolding allocated_def by blast
    from Suc.IH[OF Suc.prems(1) this] Some Suc.prems(2) show ?thesis by simp
  qed
qed

lemma fresh_not_contains:
  assumes "allocated h" "p < nextNode h"
  shows "\<not> contains (snd (new_node k t v h)) (nextNode h) p"
  using chain_fresh_target[OF assms, of "Suc (nextNode h)"]
  by (simp add: contains_def new_node_def del: ancestor_chain.simps)


subsection \<open>Inserting nodes\<close>


text \<open>Appending a node that was just created.\<close>

lemma appendChild_new:
  assumes al: "allocated h" and p: "p < nextNode h" and kp: "kind (nodes h p) \<noteq> TextK"
    and k: "k \<noteq> FragmentK"
  shows "appendChild p (nextNode h) (snd (new_node k t v h)) =
         Inr (h\<lparr>nodes := (nodes h)
                  (nextNode h := \<lparr>kind = k, tag = t, nodeValue = v, attributes = [], props = [],
                                  childNodes = [], parentNode = Some p\<rparr>,
                   p := (nodes h p)\<lparr>childNodes := childNodes (nodes h p) @ [nextNode h]\<rparr>),
                nextNode := Suc (nextNode h)\<rparr>)"
proof -
  let ?t = "nextNode h"
  let ?nd = "\<lparr>kind = k, tag = t, nodeValue = v, attributes = [], props = [],
              childNodes = [], parentNode = None\<rparr>"
  have nc: "\<not> contains (snd (new_node k t v h)) ?t p"
    by (rule fresh_not_contains[OF al p])
  from p have ne: "p \<noteq> ?t" by simp
  show ?thesis
    using nc kp k ne
    by (simp add: appendChild_def insertBefore_def new_node_def insert_node_def detach_def
        splice_def set_children_def set_parent_def fun_upd_twist)
qed

text \<open>Replacing a child by a node that was just created.\<close>

lemma replaceChild_new:
  assumes al: "allocated h" and p: "p < nextNode h" and kp: "kind (nodes h p) \<noteq> TextK"
    and k: "k \<noteq> FragmentK" and old: "parentNode (nodes h old) = Some p"
    and cs: "childNodes (nodes h p) = xs @ old # ys" and d: "distinct (xs @ old # ys)"
    and op: "old \<noteq> p"
  shows "\<exists>h'. replaceChild p (nextNode h) old (snd (new_node k t v h)) = Inr h' \<and>
           nodes h' (nextNode h) = \<lparr>kind = k, tag = t, nodeValue = v, attributes = [], props = [],
                                    childNodes = [], parentNode = Some p\<rparr> \<and>
           childNodes (nodes h' p) = xs @ nextNode h # ys \<and>
           parentNode (nodes h' old) = None \<and>
           nextNode h' = Suc (nextNode h) \<and>
           (\<forall>n. n \<noteq> nextNode h \<and> n \<noteq> p \<and> n \<noteq> old \<longrightarrow> nodes h' n = nodes h n)"
proof -
  let ?t = "nextNode h"
  let ?nd = "\<lparr>kind = k, tag = t, nodeValue = v, attributes = [], props = [],
              childNodes = [], parentNode = None\<rparr>"
  let ?h1 = "snd (new_node k t v h)"
  have nc: "\<not> contains ?h1 ?t p"
    by (rule fresh_not_contains[OF al p])
  from p have pt: "p \<noteq> ?t" by simp
  from al cs have "old < ?t" unfolding allocated_def by (metis in_set_conv_decomp)
  then have ot: "old \<noteq> ?t" by simp
  from al cs have yt: "?t \<notin> set ys" "?t \<notin> set xs" unfolding allocated_def
    by (metis Un_iff less_irrefl list.set_intros(2) set_append)+
  from d have ox: "old \<notin> set xs" by simp
  have dw: "dropWhile (\<lambda>c. c \<noteq> old) (xs @ old # ys) = old # ys"
    using ox by (auto simp: dropWhile_append3)
  have ns: "next_sibling ?h1 old = (case ys of [] \<Rightarrow> None | y # ys' \<Rightarrow> Some y)"
    using old cs ot pt dw by (simp add: next_sibling_def new_node_def)
  have nst: "next_sibling ?h1 old \<noteq> Some ?t"
    using ns yt by (cases ys) auto
  have rm: "remove1 old (xs @ old # ys) = xs @ ys"
    using ox by (simp add: remove1_append)
  have sp: "(case next_sibling ?h1 old of None \<Rightarrow> (xs @ ys) @ [?t]
             | Some r \<Rightarrow> takeWhile (\<lambda>c. c \<noteq> r) (xs @ ys) @ [?t] @ dropWhile (\<lambda>c. c \<noteq> r) (xs @ ys)) =
            xs @ ?t # ys"
  proof (cases ys)
    case Nil
    with ns show ?thesis by simp
  next
    case (Cons y ys')
    with d have "y \<notin> set xs" by auto
    then have "takeWhile (\<lambda>c. c \<noteq> y) xs = xs" "dropWhile (\<lambda>c. c \<noteq> y) xs = []"
      by (auto simp: takeWhile_eq_all_conv)
    with ns Cons show ?thesis by (simp add: takeWhile_append dropWhile_append)
  qed
  show ?thesis
    using nc kp k pt ot old nst op cs rm sp
    by (simp add: replaceChild_def new_node_def insert_node_def detach_def
        splice_def set_children_def set_parent_def)
qed

subsection \<open>The keyed-child index\<close>




subsection \<open>Lower case and names\<close>



lemma lower_key: "ascii_lower ''key'' = ''key''" "toLowerCase ''value'' = ''value''"
  "toLowerCase ''checked'' = ''checked''"
  by (simp_all add: ascii_lower_def ascii_lower_char_def toLowerCase_def lower_char_def
      latin_upper_def latin_lower_def)


lemma hooks_none: "onMount a = None \<Longrightarrow> onMount b = None \<Longrightarrow> a = (b::hooks)"
  by simp

subsection \<open>The entries of attrs, one at a time\<close>





subsection \<open>The attributes and the properties of an element\<close>

















subsection \<open>Patching a plain description against its own tree\<close>









subsection \<open>The tree of a description in a larger document\<close>

lemma renders_range: "renders lo hi h n v \<Longrightarrow> lo \<le> n \<and> n < hi"
  by (induction v) simp_all







subsection \<open>The attributes of a new element\<close>

lemma apply_attrs_append:
  "apply_attrs n (as @ bs) h =
     (case apply_attrs n as h of Inl e \<Rightarrow> Inl e | Inr h1 \<Rightarrow> apply_attrs n bs h1)"
  by (induction as arbitrary: h) (simp_all split: sum.splits)

lemma retouched_refl: "retouched n h h"
  unfolding retouched_def
  by (intro exI[of _ "attributes (nodes h n)"] exI[of _ "props (nodes h n)"]) simp

lemma retouched_trans: "retouched n h h1 \<Longrightarrow> retouched n h1 h2 \<Longrightarrow> retouched n h h2"
  unfolding retouched_def by (elim exE) (simp, blast)



subsection \<open>Patching a plain description without a previous node\<close>








subsection \<open>Reordering the children of an element\<close>







subsection \<open>The comparison targets of reconcileChildren\<close>










subsection \<open>The example descriptions\<close>

lemma names:
  "valid_name ''ul''" "valid_name ''li''" "valid_name ''hr''" "valid_name ''class''" "valid_name ''key''"
  "toLowerCase ''ul'' = ''ul''" "toLowerCase ''li'' = ''li''" "toLowerCase ''hr'' = ''hr''"
  "toLowerCase ''key'' = ''key''" "toLowerCase ''class'' = ''class''"
  by (simp_all add: name_start_char_def name_char_def toLowerCase_def lower_char_def
      latin_upper_def latin_lower_def)



section \<open>Claims about the reconciler and the description nodes\<close>

subsection \<open>C2: the comparison target of a child\<close>



subsection \<open>C6: an absent description\<close>

text \<open>
  C6 (as amended). For a container that is a node and any previous node, \<open>patch\<close> with
  \<open>null\<close> or \<open>undefined\<close> as the new description returns a newly created text node
  with the empty text; the node is not attached and nothing else in the document
  changes.
\<close>

theorem patch_absent_description:
  assumes "newNode = VNull \<or> newNode = VUndefined"
  shows "\<exists>h'. patch (Some parent) oldNode newNode h = Inr (Some (nextNode h), h') \<and>
           kind (nodes h' (nextNode h)) = TextK \<and>
           nodeValue (nodes h' (nextNode h)) = Some [] \<and>
           childNodes (nodes h' (nextNode h)) = [] \<and>
           parentNode (nodes h' (nextNode h)) = None \<and>
           (\<forall>n. n \<noteq> nextNode h \<longrightarrow> nodes h' n = nodes h n) \<and>
           nextNode h' = Suc (nextNode h)"
  using assms by (auto simp: createTextNode_def new_node_def)

text \<open>Witness for C6: \<open>null\<close> patched into the container of \<open>page\<close>.\<close>

theorem patch_absent_description_witness:
  "\<exists>h'. patch (Some 0) None VNull page = Inr (Some 1, h') \<and>
        kind (nodes h' 1) = TextK \<and> nodeValue (nodes h' 1) = Some [] \<and>
        childNodes (nodes h' 0) = [] \<and> nextNode h' = 2"
  using patch_absent_description[of VNull 0 None page] by (auto simp: page_def)

text \<open>
  Counterexample to C6 as stated: \<open>false\<close> is not \<open>null\<close> under \<open>==\<close> and is not an
  object, so it takes the text path: the node returned holds the text \<open>false\<close>, not the
  empty text, and is appended to the container.
\<close>

theorem patch_false_counterexample:
  "map_sum id (\<lambda>(r, h'). (r, kind (nodes h' 1), nodeValue (nodes h' 1), childNodes (nodes h' 0)))
     (patch (Some 0) None (VBool False) page) =
   Inr (Some 1, TextK, Some ''false'', [1])"
  by (simp add: page_def patchText_def createTextNode_def new_node_def appendChild_def
      insertBefore_def contains_def insert_node_def detach_def splice_def set_children_def
      set_parent_def)

subsection \<open>C7: patching twice\<close>




text \<open>
  Two more kinds of description are not plain, because the second patch acts on the
  document although it returns the same node and moves no node.
  \<^item> \<open>Vnode('input', {focus: true}, [])\<close>: the focus is requested again at every patch.
  \<^item> \<open>Vnode('div', {ab: '0', Ab: false, aB: '2', c: '1'}, [])\<close>, three names for one
    attribute: every patch sets the attribute \<open>ab\<close>, removes it and sets it again, and
    the second patch leaves it after the attribute \<open>c\<close>.
\<close>

lemma patch_twice_other_effects:
  "map_sum id
     (\<lambda>(r, h1). (r, events h1,
                  map_sum id (\<lambda>(r2, h2). (r2, events h2))
                    (patch (Some 0) r (Vnode (TagName ''input'') (Attrs [(''focus'', ABool True)]) (VArray [])) h1)))
     (patch (Some 0) None (Vnode (TagName ''input'') (Attrs [(''focus'', ABool True)]) (VArray [])) page) =
   Inr (Some 1, [FocusRequested 1], Inr (Some 1, [FocusRequested 1, FocusRequested 1])) \<and>
   map_sum id
     (\<lambda>(r, h1). (r, attributes (nodes h1 1),
                  map_sum id (\<lambda>(r2, h2). (r2, attributes (nodes h2 1)))
                    (patch (Some 0) r
                       (Vnode (TagName ''div'')
                          (Attrs [(''ab'', AStr ''0''), (''Ab'', ABool False), (''aB'', AStr ''2''),
                                  (''c'', AStr ''1'')]) (VArray [])) h1)))
     (patch (Some 0) None
        (Vnode (TagName ''div'')
           (Attrs [(''ab'', AStr ''0''), (''Ab'', ABool False), (''aB'', AStr ''2''), (''c'', AStr ''1'')])
           (VArray [])) page) =
   Inr (Some 1, [(''ab'', ''2''), (''c'', ''1'')], Inr (Some 1, [(''c'', ''1''), (''ab'', ''2'')]))"
  by (simp add: page_def replaceNode.simps reconcileChildren.simps
      dom_createElement_def emit_def removeAttribute_def ascii_lower_def ascii_lower_char_def
      new_node_def toLowerCase_def lower_char_def latin_upper_def latin_lower_def
      name_start_char_def name_char_def mount_def Let_def keep_iff comparison_target_def
      getKeyedNodes_def getAttribute_def setAttribute_def apply_attr_def is_function_def
      is_input_def lower_key
      patchText_def createTextNode_def appendChild_def insertBefore_def
      contains_def insert_node_def detach_def splice_def set_children_def set_parent_def
      child_at_def trim.simps shouldReplace_def replaceChild_def next_sibling_def
      ancestor_chain_numeral)

subsection \<open>C8: the text path\<close>

text \<open>
  The text path on the previous nodes the callers in dom.js and core.js pass. The new
  description is a string or a number, the previous node is a text node, the container an
  element of a well-formed document. If the text node holds the string of the
  description, \<open>patch\<close> returns it and the document is unchanged. Otherwise a text node
  is created; it takes the place of the previous node when that is a child of the
  container, and is appended to the container when the previous node is not inside the
  container.
\<close>

lemma patch_text_retained:
  assumes v: "is_text v" and ko: "kind (nodes h old) = TextK"
    and kp: "kind (nodes h parent) = ElementK"
    and al: "allocated h" and p: "parent < nextNode h" and o: "old < nextNode h"
  shows
   "(nodeValue (nodes h old) = Some (to_String v) \<longrightarrow>
       patch (Some parent) (Some old) v h = Inr (Some old, h)) \<and>
    (nodeValue (nodes h old) \<noteq> Some (to_String v) \<and> parentNode (nodes h old) = Some parent \<and>
     childNodes (nodes h parent) = xs @ old # ys \<and> distinct (xs @ old # ys) \<longrightarrow>
       (\<exists>h'. patch (Some parent) (Some old) v h = Inr (Some (nextNode h), h') \<and>
             kind (nodes h' (nextNode h)) = TextK \<and>
             nodeValue (nodes h' (nextNode h)) = Some (to_String v) \<and>
             parentNode (nodes h' (nextNode h)) = Some parent \<and>
             childNodes (nodes h' parent) = xs @ nextNode h # ys \<and>
             parentNode (nodes h' old) = None)) \<and>
    (nodeValue (nodes h old) \<noteq> Some (to_String v) \<and>
     (\<forall>k. \<not> ancestor_chain k (nodes h) parent old) \<longrightarrow>
       (\<exists>h'. patch (Some parent) (Some old) v h = Inr (Some (nextNode h), h') \<and>
             kind (nodes h' (nextNode h)) = TextK \<and>
             nodeValue (nodes h' (nextNode h)) = Some (to_String v) \<and>
             parentNode (nodes h' (nextNode h)) = Some parent \<and>
             childNodes (nodes h' parent) = childNodes (nodes h parent) @ [nextNode h] \<and>
             nodes h' old = nodes h old))"
proof -
  let ?t = "nextNode h"
  let ?s = "to_String v"
  let ?h1 = "snd (new_node TextK [] (Some ?s) h)"
  have pt: "patch (Some parent) (Some old) v h = patchText parent (Some old) v h"
    using v by (cases v) (simp_all add: is_text_def)
  from ko kp have op: "old \<noteq> parent" by auto
  from p o have ne: "parent \<noteq> ?t" "old \<noteq> ?t" by simp_all
  from kp have kp': "kind (nodes h parent) \<noteq> TextK" by simp
  have c1: "createTextNode ?s h = (?t, ?h1)" by (simp add: createTextNode_def new_node_def)
  have same: "nodeValue (nodes h old) = Some ?s \<longrightarrow> patch (Some parent) (Some old) v h = Inr (Some old, h)"
    by (simp add: pt patchText_def)
  have repl: "\<exists>h'. patch (Some parent) (Some old) v h = Inr (Some ?t, h') \<and>
             kind (nodes h' ?t) = TextK \<and> nodeValue (nodes h' ?t) = Some ?s \<and>
             parentNode (nodes h' ?t) = Some parent \<and>
             childNodes (nodes h' parent) = xs @ ?t # ys \<and> parentNode (nodes h' old) = None"
    if a: "nodeValue (nodes h old) \<noteq> Some ?s" "parentNode (nodes h old) = Some parent"
      "childNodes (nodes h parent) = xs @ old # ys" "distinct (xs @ old # ys)"
  proof -
    have ct: "contains ?h1 parent old"
      using a(2) op ne by (simp add: contains_def new_node_def chain_self)
    from replaceChild_new[OF al p kp' _ a(2) a(3) a(4) op, of TextK "[]" "Some ?s"] obtain h' where
      h': "replaceChild parent ?t old ?h1 = Inr h'"
      "nodes h' ?t = \<lparr>kind = TextK, tag = [], nodeValue = Some ?s, attributes = [], props = [],
                       childNodes = [], parentNode = Some parent\<rparr>"
      "childNodes (nodes h' parent) = xs @ ?t # ys" "parentNode (nodes h' old) = None"
      by auto
    have "patch (Some parent) (Some old) v h = Inr (Some ?t, h')"
      using a(1) ct h'(1) by (simp add: pt patchText_def c1)
    with h' show ?thesis by simp
  qed
  have app: "\<exists>h'. patch (Some parent) (Some old) v h = Inr (Some ?t, h') \<and>
             kind (nodes h' ?t) = TextK \<and> nodeValue (nodes h' ?t) = Some ?s \<and>
             parentNode (nodes h' ?t) = Some parent \<and>
             childNodes (nodes h' parent) = childNodes (nodes h parent) @ [?t] \<and>
             nodes h' old = nodes h old"
    if a: "nodeValue (nodes h old) \<noteq> Some ?s" "\<forall>k. \<not> ancestor_chain k (nodes h) parent old"
  proof -
    have ct: "\<not> contains ?h1 parent old"
      using a(2) chain_fresh_node[OF al o, of "Suc ?t" _ parent]
      by (simp add: contains_def new_node_def del: ancestor_chain.simps)
    have "patch (Some parent) (Some old) v h =
            (case appendChild parent ?t ?h1 of Inl e \<Rightarrow> Inl e | Inr h2 \<Rightarrow> Inr (Some ?t, h2))"
      using a(1) ct by (simp add: pt patchText_def c1)
    then show ?thesis
      using appendChild_new[OF al p kp', of TextK "[]" "Some ?s"] ne op by simp
  qed
  from same repl app show ?thesis by blast
qed

text \<open>In \<open>counter_page\<close>: the number 5 against the text node holding 5, another text
  against that node (a child of the container), and against a detached text node.\<close>

lemma patch_text_retained_example:
  "patch (Some 0) (Some 1) (VNum (Integer 5)) counter_page = Inr (Some 1, counter_page) \<and>
   (\<exists>h'. patch (Some 0) (Some 1) (VStr ''6'') counter_page = Inr (Some 3, h') \<and>
         kind (nodes h' 3) = TextK \<and> nodeValue (nodes h' 3) = Some ''6'' \<and>
         parentNode (nodes h' 3) = Some 0 \<and> childNodes (nodes h' 0) = [3] \<and>
         parentNode (nodes h' 1) = None) \<and>
   (\<exists>h'. patch (Some 0) (Some 2) (VStr ''6'') counter_page = Inr (Some 3, h') \<and>
         kind (nodes h' 3) = TextK \<and> nodeValue (nodes h' 3) = Some ''6'' \<and>
         parentNode (nodes h' 3) = Some 0 \<and> childNodes (nodes h' 0) = [1, 3] \<and>
         nodes h' 2 = nodes counter_page 2)"
proof -
  have al: "allocated counter_page" by (simp add: allocated_def counter_page_def)
  have nc: "\<not> ancestor_chain k (nodes counter_page) 0 2" for k
    by (cases k) (simp_all add: counter_page_def)
  have five: "to_String (VNum (Integer 5)) = ''5''"
    by (simp add: string_of_int_def string_of_nat.simps digit_def)
  from patch_text_retained[of "VNum (Integer 5)" counter_page 1 0 "[]" "[]"]
    patch_text_retained[of "VStr ''6''" counter_page 1 0 "[]" "[]"]
    patch_text_retained[of "VStr ''6''" counter_page 2 0 "[]" "[]"] al nc five
  show ?thesis by (simp add: counter_page_def is_text_def)
qed


subsection \<open>C10: the hooks of a new description\<close>

text \<open>
  C10. Whatever the tag, the attributes and the children given to \<open>Vnode\<close>, the \<open>hooks\<close>
  of the description it returns is the empty object: \<open>onMount\<close> is absent.
\<close>

theorem Vnode_hooks_empty: "vnode_hooks (Vnode t a children) = Some \<lparr>onMount = None\<rparr>"
  by (cases t) simp_all

text \<open>Witness for C10: an input description.\<close>

theorem Vnode_hooks_empty_witness:
  "vnode_hooks (Vnode (TagName ''input'') (Attrs [(''type'', AStr ''text'')]) (VStr [])) =
     Some \<lparr>onMount = None\<rparr>"
  using Vnode_hooks_empty[of "TagName ''input''" "Attrs [(''type'', AStr ''text'')]" "VStr []"] by simp

end
